theory Spec2Isabelle
  imports Main "HOL-Library.Word"
begin

unbundle bit_operations_syntax

section \<open>Bytes, 32-bit words and thrown values\<close>

text \<open>
  A \<open>Uint8Array\<close> is a list of bytes. The numbers that crypto-js keeps in a word array are
  32-bit integers, and every operation the code applies to them is bitwise, so they are
  \<open>32 word\<close>. Array lengths and indices stay below \<open>2^32\<close> in JavaScript; they are
  \<open>nat\<close> here. A thrown value is an \<open>exn\<close>; a function that can throw returns
  \<open>exn + 'a\<close>, the exception on the left.
\<close>

type_synonym byte = "8 word"
type_synonym word32 = "32 word"
type_synonym Uint8Array = "byte list"

datatype exn = RangeError string | Error string

fun String_of :: "exn \<Rightarrow> string" where
  "String_of (RangeError m) = ''RangeError: '' @ m"
| "String_of (Error m) = ''Error: '' @ m"

record WordArray =
  words :: "word32 list"
  sigBytes :: int

text \<open>
  Reading a JavaScript array beyond its end gives \<open>undefined\<close>, which every bitwise
  operator turns into 0.
\<close>

definition wget :: "word32 list \<Rightarrow> nat \<Rightarrow> word32" where
  "wget ws i = (if i < length ws then ws ! i else 0)"

text \<open>\<open>(w >>> k) & 0xff\<close>, as a byte.\<close>

definition byteOf :: "nat \<Rightarrow> word32 \<Rightarrow> byte" where
  "byteOf k w = ucast (drop_bit k w AND 0xff)"

text \<open>
  \<open>wordToByteArray\<close> (crypto.ts, the helper inside both \<open>encryptData\<close> and
  \<open>decryptData\<close>): byte \<open>i\<close> is \<open>(words[i >>> 2] >>> (24 - (i % 4) * 8)) & 0xff\<close>
  for \<open>i < sigBytes\<close>. \<open>new Uint8Array(sigBytes)\<close> throws a RangeError when
  \<open>sigBytes\<close> is negative.
\<close>

definition byteAt :: "word32 list \<Rightarrow> nat \<Rightarrow> byte" where
  "byteAt ws i = byteOf (24 - (i mod 4) * 8) (wget ws (i div 4))"

definition wordToByteArray :: "WordArray \<Rightarrow> exn + Uint8Array" where
  "wordToByteArray wordArray =
     (if sigBytes wordArray < 0 then Inl (RangeError ''Invalid typed array length'')
      else Inr (map (byteAt (words wordArray)) [0..<nat (sigBytes wordArray)]))"

section \<open>The crypto-js library\<close>

text \<open>
  crypto-js is a dependency of the application. Its word arrays, its PKCS7 padding, its
  CBC mode and the buffering of its block ciphers are modelled here as the library
  computes them; the AES block permutation, PBKDF2 and the Base64 codec are parameters
  (record \<open>crypto_js\<close>).
\<close>

text \<open>Four bytes, most significant first, as one word.\<close>

definition be32 :: "byte \<Rightarrow> byte \<Rightarrow> byte \<Rightarrow> byte \<Rightarrow> word32" where
  "be32 a b c d =
     push_bit 24 (ucast a) OR push_bit 16 (ucast b) OR push_bit 8 (ucast c) OR ucast d"

text \<open>
  \<open>WordArray.create(typedArray)\<close>: \<open>words[i >>> 2] |= typedArray[i] << (24 - (i % 4) * 8)\<close>
  for every byte, \<open>sigBytes\<close> the byte length.
\<close>

fun bytesToWords :: "Uint8Array \<Rightarrow> word32 list" where
  "bytesToWords (a # b # c # d # rest) = be32 a b c d # bytesToWords rest"
| "bytesToWords [a, b, c] = [be32 a b c 0]"
| "bytesToWords [a, b] = [be32 a b 0 0]"
| "bytesToWords [a] = [be32 a 0 0 0]"
| "bytesToWords [] = []"

definition WordArray_create :: "Uint8Array \<Rightarrow> WordArray" where
  "WordArray_create typedArray =
     \<lparr>words = bytesToWords typedArray, sigBytes = int (length typedArray)\<rparr>"

text \<open>The significant bytes of a word array.\<close>

definition sigBytesOf :: "WordArray \<Rightarrow> Uint8Array" where
  "sigBytesOf wa = map (byteAt (words wa)) [0..<nat (sigBytes wa)]"

text \<open>
  \<open>Pkcs7.pad(data, blockSize)\<close>: \<open>nPaddingBytes = blockSizeBytes - data.sigBytes % blockSizeBytes\<close>
  bytes, each of value \<open>nPaddingBytes\<close>, are appended to the significant bytes of \<open>data\<close>
  (\<open>data.concat(padding)\<close>).
\<close>

definition Pkcs7_pad :: "WordArray \<Rightarrow> nat \<Rightarrow> WordArray" where
  "Pkcs7_pad data blockSize =
     (let blockSizeBytes = blockSize * 4;
          nPaddingBytes = blockSizeBytes - nat (sigBytes data) mod blockSizeBytes
      in \<lparr>words = bytesToWords (sigBytesOf data @ replicate nPaddingBytes (of_nat nPaddingBytes)),
          sigBytes = sigBytes data + int nPaddingBytes\<rparr>)"

text \<open>
  \<open>Pkcs7.unpad(data)\<close>: \<open>nPaddingBytes = data.words[(data.sigBytes - 1) >>> 2] & 0xff\<close>,
  then \<open>data.sigBytes -= nPaddingBytes\<close>. Nothing is compared with the padding bytes.
  For \<open>sigBytes = 0\<close> the index is \<open>0x3fffffff\<close>, beyond any array.
\<close>

definition ushr2 :: "int \<Rightarrow> nat" where
  "ushr2 x = (if x < 0 then nat (x + 2 ^ 32) div 4 else nat x div 4)"

definition Pkcs7_unpad :: "WordArray \<Rightarrow> WordArray" where
  "Pkcs7_unpad data =
     (let nPaddingBytes = wget (words data) (ushr2 (sigBytes data - 1)) AND 0xff
      in data\<lparr>sigBytes := sigBytes data - uint nPaddingBytes\<rparr>)"

text \<open>A cipher block is four words (\<open>blockSize = 128/32\<close>).\<close>

type_synonym block = "word32 \<times> word32 \<times> word32 \<times> word32"

definition blockAt :: "word32 list \<Rightarrow> nat \<Rightarrow> block" where
  "blockAt ws offset = (wget ws offset, wget ws (offset + 1), wget ws (offset + 2), wget ws (offset + 3))"

definition blocksOf :: "word32 list \<Rightarrow> nat \<Rightarrow> block list" where
  "blocksOf ws nBlocks = map (\<lambda>j. blockAt ws (4 * j)) [0..<nBlocks]"

fun wordsOfBlock :: "block \<Rightarrow> word32 list" where
  "wordsOfBlock (a, b, c, d) = [a, b, c, d]"

definition wordsOf :: "block list \<Rightarrow> word32 list" where
  "wordsOf bs = concat (map wordsOfBlock bs)"

fun xorBlock :: "block \<Rightarrow> block \<Rightarrow> block" where
  "xorBlock (a, b, c, d) (e, f, g, h) = (a XOR e, b XOR f, c XOR g, d XOR h)"

text \<open>
  CBC: the encryptor xors a block with the IV (the first block) or with the previous
  ciphertext block and then encrypts it; the decryptor decrypts a block and then xors it
  with the IV or with the previous ciphertext block.
\<close>

fun CBC_Encryptor :: "(block \<Rightarrow> block) \<Rightarrow> block \<Rightarrow> block list \<Rightarrow> block list" where
  "CBC_Encryptor enc prev [] = []"
| "CBC_Encryptor enc prev (b # bs) =
     (let c = enc (xorBlock b prev) in c # CBC_Encryptor enc c bs)"

fun CBC_Decryptor :: "(block \<Rightarrow> block) \<Rightarrow> block \<Rightarrow> block list \<Rightarrow> block list" where
  "CBC_Decryptor dec prev [] = []"
| "CBC_Decryptor dec prev (c # cs) = xorBlock (dec c) prev # CBC_Decryptor dec c cs"

datatype hasher = SHA1 | SHA256 | SHA512

record pbkdf2_cfg =
  keySize :: nat
  iterations :: nat
  hasher :: hasher

record crypto_js =
  PBKDF2 :: "string \<Rightarrow> WordArray \<Rightarrow> pbkdf2_cfg \<Rightarrow> WordArray"
  Base64_stringify :: "WordArray \<Rightarrow> string"
  Base64_parse :: "string \<Rightarrow> WordArray"
  AES_encryptBlock :: "WordArray \<Rightarrow> block \<Rightarrow> block"
  AES_decryptBlock :: "WordArray \<Rightarrow> block \<Rightarrow> block"

text \<open>
  \<open>_process(flush)\<close> of a block cipher handles \<open>ceil(sigBytes / 16)\<close> blocks in place
  and returns them with \<open>min(nWordsReady * 4, sigBytes)\<close> significant bytes. The IV block
  is the first four words of the IV's word array (a 12-byte IV has three; the fourth
  reads as 0).
\<close>

definition nBlocksReady :: "WordArray \<Rightarrow> nat" where
  "nBlocksReady data = nat ((sigBytes data + 15) div 16)"

definition AES_encrypt :: "crypto_js \<Rightarrow> WordArray \<Rightarrow> WordArray \<Rightarrow> WordArray \<Rightarrow> WordArray" where
  "AES_encrypt L message key iv =
     (let data = Pkcs7_pad message 4;
          n = nBlocksReady data;
          processed = CBC_Encryptor (AES_encryptBlock L key) (blockAt (words iv) 0)
                        (blocksOf (words data) n)
      in \<lparr>words = wordsOf processed, sigBytes = min (int (n * 4 * 4)) (sigBytes data)\<rparr>)"

definition AES_decrypt_process :: "crypto_js \<Rightarrow> WordArray \<Rightarrow> WordArray \<Rightarrow> WordArray \<Rightarrow> WordArray" where
  "AES_decrypt_process L ciphertext key iv =
     (let n = nBlocksReady ciphertext;
          processed = CBC_Decryptor (AES_decryptBlock L key) (blockAt (words iv) 0)
                        (blocksOf (words ciphertext) n)
      in \<lparr>words = wordsOf processed, sigBytes = min (int (n * 4 * 4)) (sigBytes ciphertext)\<rparr>)"

definition AES_decrypt :: "crypto_js \<Rightarrow> WordArray \<Rightarrow> WordArray \<Rightarrow> WordArray \<Rightarrow> WordArray" where
  "AES_decrypt L ciphertext key iv = Pkcs7_unpad (AES_decrypt_process L ciphertext key iv)"

section \<open>crypto.ts\<close>

text \<open>
  The outside world of the application: the system random generator (an unbounded supply
  of bytes and the number already drawn), the console, the dialogs shown to the user,
  the byte arrays handed to \<open>provider.write\<close> and the backups written for sharing.
\<close>

record World =
  entropy :: "nat \<Rightarrow> byte"
  drawn :: nat
  console :: "string list"
  alerts :: "string list"
  written :: "Uint8Array list"
  shared :: "Uint8Array list"

text \<open>\<open>Random.getRandomBytes(n)\<close> of expo-crypto: the next \<open>n\<close> random bytes.\<close>

definition getRandomBytes :: "nat \<Rightarrow> World \<Rightarrow> Uint8Array \<times> World" where
  "getRandomBytes n w = (map (entropy w) [drawn w..<drawn w + n], w\<lparr>drawn := drawn w + n\<rparr>)"

definition deriveKey_cfg :: pbkdf2_cfg where
  "deriveKey_cfg = \<lparr>keySize = 256 div 32, iterations = 100000, hasher = SHA256\<rparr>"

definition deriveKey :: "crypto_js \<Rightarrow> string \<Rightarrow> Uint8Array \<Rightarrow> string" where
  "deriveKey L password salt =
     (let saltWA = WordArray_create salt;
          key = PBKDF2 L password saltWA deriveKey_cfg
      in Base64_stringify L key)"

definition encryptData :: "crypto_js \<Rightarrow> Uint8Array \<Rightarrow> string \<Rightarrow> World \<Rightarrow> (exn + Uint8Array) \<times> World" where
  "encryptData L data keyBase64 w =
     (let (iv, w1) = getRandomBytes 12 w;
          ivWA = WordArray_create iv;
          keyWA = Base64_parse L keyBase64;
          dataWA = WordArray_create data;
          encrypted = AES_encrypt L dataWA keyWA ivWA
      in case wordToByteArray encrypted of
           Inl e \<Rightarrow> (Inl e, w1)
         | Inr encryptedBytes \<Rightarrow> (Inr (iv @ encryptedBytes), w1))"

definition decryptData :: "crypto_js \<Rightarrow> Uint8Array \<Rightarrow> string \<Rightarrow> exn + Uint8Array" where
  "decryptData L data keyBase64 =
     (let iv = take 12 data;
          ciphertext = drop 12 data;
          ivWA = WordArray_create iv;
          ciphertextWA = WordArray_create ciphertext;
          keyWA = Base64_parse L keyBase64;
          decrypted = AES_decrypt L ciphertextWA keyWA ivWA
      in wordToByteArray decrypted)"

definition generateSalt :: "World \<Rightarrow> Uint8Array \<times> World" where
  "generateSalt w = getRandomBytes 16 w"

section \<open>SafProvider.ts\<close>

text \<open>
  \<open>read()\<close> of the storage provider, in its two versions. \<open>fileUri\<close> is the selected
  file (\<open>null\<close> and the empty string are falsy), \<open>fileRead\<close> what reading that file
  gives: thrown, or its bytes. The provider named \<open>Secure Cloud Storage\<close> throws the
  exception again; the provider named \<open>Android SAF\<close> logs it and returns \<open>null\<close>.
\<close>

definition SafProvider_read ::
  "string option \<Rightarrow> exn + Uint8Array \<Rightarrow> World \<Rightarrow> (exn + Uint8Array option) \<times> World" where
  "SafProvider_read fileUri fileRead w =
     (if fileUri = None \<or> fileUri = Some '''' then (Inr None, w)
      else (case fileRead of
              Inl e \<Rightarrow> (Inl e, w\<lparr>console := console w @ [''Read failed: '' @ String_of e]\<rparr>)
            | Inr bytes \<Rightarrow> (Inr (Some bytes), w)))"

definition SafProvider_read_AndroidSAF ::
  "string option \<Rightarrow> exn + Uint8Array \<Rightarrow> World \<Rightarrow> (exn + Uint8Array option) \<times> World" where
  "SafProvider_read_AndroidSAF fileUri fileRead w =
     (if fileUri = None \<or> fileUri = Some '''' then (Inr None, w)
      else (case fileRead of
              Inl e \<Rightarrow> (Inr None, w\<lparr>console := console w @ [''Read error: '' @ String_of e]\<rparr>)
            | Inr bytes \<Rightarrow> (Inr (Some bytes), w)))"

section \<open>App.tsx\<close>

text \<open>
  The state of the \<open>App\<close> component. A handler takes the state in which it is called
  and the outcomes of the calls it makes to the file picker, the storage provider and the
  local database, and returns the state after all its updates.
\<close>

datatype AppState = WELCOME | CREATE_DB_NAME | UNLOCK | CREATE_PASSWORD | READY

record App =
  state :: AppState
  loading :: bool
  error :: string
  encryptedData :: "Uint8Array option"
  masterKey :: "string option"
  salt :: "Uint8Array option"

definition initialApp :: App where
  "initialApp = \<lparr>state = WELCOME, loading = False, error = '''', encryptedData = None,
                  masterKey = None, salt = None\<rparr>"

definition toLowerCase :: "string \<Rightarrow> string" where
  "toLowerCase s =
     map (\<lambda>c. if 65 \<le> (of_char c :: nat) \<and> (of_char c :: nat) \<le> 90
              then char_of (of_char c + (32 :: nat)) else c) s"

definition endsWith :: "string \<Rightarrow> string \<Rightarrow> bool" where
  "endsWith s suffix \<longleftrightarrow>
     length suffix \<le> length s \<and> drop (length s - length suffix) s = suffix"

text \<open>The \<open>catch\<close> and \<open>finally\<close> blocks of \<open>handleOpen\<close>.\<close>

definition handleOpen_catch :: "exn \<Rightarrow> App \<times> World \<Rightarrow> App \<times> World" where
  "handleOpen_catch e = (\<lambda>(app, w).
     (app\<lparr>error := ''Failed to open file: '' @ String_of e, loading := False\<rparr>,
      w\<lparr>console := console w @ [String_of e]\<rparr>))"

text \<open>
  \<open>handleOpen\<close> as it picks the file with \<open>DocumentPicker.getDocumentAsync\<close>
  (App.tsx, lines 26 to 76). \<open>picked\<close> is the picker's result: thrown, canceled
  (\<open>None\<close>) or the asset's \<open>uri\<close> and \<open>name\<close>; \<open>readResult\<close> is what
  \<open>provider.read()\<close> gives: thrown, \<open>null\<close> (\<open>None\<close>) or the bytes.
\<close>

definition handleOpen_DocumentPicker ::
  "exn + (string \<times> string) option \<Rightarrow> exn + Uint8Array option \<Rightarrow> App \<times> World \<Rightarrow> App \<times> World" where
  "handleOpen_DocumentPicker picked readResult = (\<lambda>(app, w).
     let app1 = app\<lparr>loading := True, error := ''''\<rparr> in
     case picked of
       Inl e \<Rightarrow> handleOpen_catch e (app1, w)
     | Inr None \<Rightarrow> (app1\<lparr>loading := False\<rparr>, w)
     | Inr (Some (uri, fileName)) \<Rightarrow>
         if \<not> endsWith (toLowerCase fileName) ''.db''
         then (app1\<lparr>loading := False\<rparr>, w\<lparr>alerts := alerts w @ [''Invalid File'']\<rparr>)
         else (case readResult of
                 Inl e \<Rightarrow> handleOpen_catch e (app1, w)
               | Inr (Some data) \<Rightarrow>
                   if length data > 0
                   then (app1\<lparr>encryptedData := Some data, state := UNLOCK, loading := False\<rparr>, w)
                   else (app1\<lparr>state := CREATE_PASSWORD, loading := False\<rparr>, w)
               | Inr None \<Rightarrow> (app1\<lparr>state := CREATE_PASSWORD, loading := False\<rparr>, w)))"

text \<open>
  \<open>handleOpen\<close> as it picks the file with \<open>provider.pickFile()\<close> (App.tsx, lines 280
  to 317). \<open>picked\<close> is thrown, or the uri, or \<open>null\<close>; an empty uri is falsy too.
\<close>

definition handleOpen_pickFile ::
  "exn + string option \<Rightarrow> exn + Uint8Array option \<Rightarrow> App \<times> World \<Rightarrow> App \<times> World" where
  "handleOpen_pickFile picked readResult = (\<lambda>(app, w).
     let app1 = app\<lparr>loading := True, error := ''''\<rparr> in
     case picked of
       Inl e \<Rightarrow> handleOpen_catch e (app1, w)
     | Inr uri \<Rightarrow>
         if uri = None \<or> uri = Some ''''
         then (app1\<lparr>loading := False\<rparr>, w)
         else (case readResult of
                 Inl e \<Rightarrow> handleOpen_catch e (app1, w)
               | Inr (Some data) \<Rightarrow>
                   if length data > 0
                   then (app1\<lparr>encryptedData := Some data, state := UNLOCK, loading := False\<rparr>, w)
                   else (app1\<lparr>state := CREATE_PASSWORD, loading := False\<rparr>, w)
               | Inr None \<Rightarrow>
                   handleOpen_catch
                     (Error ''Could not read file content. The file might be corrupted or inaccessible.'')
                     (app1, w)))"

text \<open>
  \<open>handleCreateNew\<close>: \<open>created\<close> is the exception of \<open>provider.connect()\<close> or
  \<open>provider.createNewFile(filename)\<close>, if one of them throws.
\<close>

definition handleCreateNew :: "string \<Rightarrow> exn option \<Rightarrow> App \<times> World \<Rightarrow> App \<times> World" where
  "handleCreateNew customName created = (\<lambda>(app, w).
     let app1 = app\<lparr>loading := True, error := ''''\<rparr> in
     case created of
       Some e \<Rightarrow> (app1\<lparr>error := ''Failed to create: '' @ String_of e, loading := False\<rparr>,
                  w\<lparr>console := console w @ [String_of e]\<rparr>)
     | None \<Rightarrow> (app1\<lparr>state := CREATE_PASSWORD, loading := False\<rparr>, w))"

text \<open>The header check of \<open>handleUnlock\<close>: the loop over \<open>headerBytes\<close> with its \<open>break\<close>.\<close>

definition headerBytes :: "byte list" where
  "headerBytes = [0x53, 0x51, 0x4c, 0x69, 0x74, 0x65, 0x20, 0x66, 0x6f, 0x72, 0x6d, 0x61, 0x74, 0x20, 0x33]"

function headerLoop :: "Uint8Array \<Rightarrow> nat \<Rightarrow> bool" where
  "headerLoop dbData i =
     (if i < length headerBytes
      then (if i < length dbData \<and> dbData ! i = headerBytes ! i
            then headerLoop dbData (i + 1) else False)
      else True)"
  by pat_completeness auto
termination
  by (relation "measure (\<lambda>(dbData, i). length headerBytes - i)") auto

declare headerLoop.simps [simp del]

definition isValid :: "Uint8Array \<Rightarrow> bool" where
  "isValid dbData = headerLoop dbData 0"

definition handleUnlock_catch :: "exn \<Rightarrow> App \<times> World \<Rightarrow> App \<times> World" where
  "handleUnlock_catch e = (\<lambda>(app, w).
     (app\<lparr>error := ''Incorrect password or corrupted file.'', loading := False\<rparr>,
      w\<lparr>console := console w @ [String_of e]\<rparr>))"

text \<open>\<open>imported\<close> is the exception of \<open>importDB(dbData)\<close>, if it throws.\<close>

definition handleUnlock ::
  "crypto_js \<Rightarrow> string \<Rightarrow> exn option \<Rightarrow> App \<times> World \<Rightarrow> App \<times> World" where
  "handleUnlock L password imported = (\<lambda>(app, w).
     case encryptedData app of
       None \<Rightarrow> (app, w)
     | Some encrypted \<Rightarrow>
         let app1 = app\<lparr>loading := True, error := ''''\<rparr>;
             s = take 16 encrypted;
             app2 = app1\<lparr>salt := Some s\<rparr>;
             derivedKey = deriveKey L password s;
             ciphertext = drop 16 encrypted
         in case decryptData L ciphertext derivedKey of
              Inl e \<Rightarrow> handleUnlock_catch e (app2, w)
            | Inr dbData \<Rightarrow>
                if \<not> isValid dbData
                then handleUnlock_catch (Error ''Invalid password or corrupted database file.'') (app2, w)
                else (case imported of
                        Some e \<Rightarrow> handleUnlock_catch e (app2, w)
                      | None \<Rightarrow> (app2\<lparr>masterKey := Some derivedKey, state := READY, loading := False\<rparr>, w)))"

text \<open>
  \<open>performSync\<close>: \<open>exported\<close> is what \<open>exportDB()\<close> gives (thrown, or the database
  image), \<open>writeFailure\<close> the exception of \<open>provider.write(finalData)\<close>, if it throws.
\<close>

record sync_io =
  exported :: "exn + Uint8Array"
  writeFailure :: "exn option"

definition performSync ::
  "crypto_js \<Rightarrow> string \<Rightarrow> Uint8Array \<Rightarrow> sync_io \<Rightarrow> World \<Rightarrow> (exn + unit) \<times> World" where
  "performSync L k s io w =
     (case exported io of
        Inl e \<Rightarrow> (Inl e, w)
      | Inr dbData \<Rightarrow>
          (case encryptData L dbData k w of
             (Inl e, w1) \<Rightarrow> (Inl e, w1)
           | (Inr encrypted, w1) \<Rightarrow>
               let finalData = s @ encrypted;
                   w2 = w1\<lparr>written := written w1 @ [finalData]\<rparr>
               in case writeFailure io of
                    Some e \<Rightarrow> (Inl e, w2)
                  | None \<Rightarrow> (Inr (), w2)))"

definition handleCreatePassword_catch :: "exn \<Rightarrow> App \<times> World \<Rightarrow> App \<times> World" where
  "handleCreatePassword_catch e = (\<lambda>(app, w).
     (app\<lparr>error := ''Failed to create database: '' @ String_of e, loading := False\<rparr>,
      w\<lparr>console := console w @ [String_of e]\<rparr>))"

text \<open>\<open>initialised\<close> is the exception of \<open>initDB()\<close>, if it throws.\<close>

definition handleCreatePassword ::
  "crypto_js \<Rightarrow> string \<Rightarrow> exn option \<Rightarrow> sync_io \<Rightarrow> App \<times> World \<Rightarrow> App \<times> World" where
  "handleCreatePassword L password initialised io = (\<lambda>(app, w).
     let app1 = app\<lparr>loading := True\<rparr>;
         (s, w1) = generateSalt w;
         app2 = app1\<lparr>salt := Some s\<rparr>;
         derivedKey = deriveKey L password s
     in case initialised of
          Some e \<Rightarrow> handleCreatePassword_catch e (app2, w1)
        | None \<Rightarrow>
            let app3 = app2\<lparr>masterKey := Some derivedKey\<rparr>
            in (case performSync L derivedKey s io w1 of
                  (Inl e, w2) \<Rightarrow> handleCreatePassword_catch e (app3, w2)
                | (Inr u, w2) \<Rightarrow> (app3\<lparr>state := READY, loading := False\<rparr>, w2)))"

text \<open>
  \<open>handleSync\<close> (App.tsx, lines 179 to 191). \<open>masterKey && salt\<close> is truthy when both
  are set and the key is not the empty string.
\<close>

definition handleSync :: "crypto_js \<Rightarrow> bool \<Rightarrow> sync_io \<Rightarrow> App \<times> World \<Rightarrow> App \<times> World" where
  "handleSync L silent io = (\<lambda>(app, w).
     case (masterKey app, salt app) of
       (Some k, Some s) \<Rightarrow>
         if k = '''' then (app, w)
         else
           let app1 = (if \<not> silent then app\<lparr>loading := True\<rparr> else app);
               (r, w1) = performSync L k s io w;
               w2 = (case r of
                       Inr u \<Rightarrow> w1
                     | Inl e \<Rightarrow>
                         let w' = w1\<lparr>console := console w1 @ [String_of e]\<rparr>
                         in if \<not> silent
                            then w'\<lparr>alerts := alerts w' @ [''Sync failed: '' @ String_of e]\<rparr>
                            else w')
           in ((if \<not> silent then app1\<lparr>loading := False\<rparr> else app1), w2)
     | _ \<Rightarrow> (app, w))"

text \<open>
  \<open>handleSync\<close> as it also reports a successful explicit sync on an unmanaged provider
  (App.tsx, lines 420 to 443).
\<close>

definition handleSync_isManaged ::
  "crypto_js \<Rightarrow> bool \<Rightarrow> bool \<Rightarrow> sync_io \<Rightarrow> App \<times> World \<Rightarrow> App \<times> World" where
  "handleSync_isManaged L managed silent io = (\<lambda>(app, w).
     case (masterKey app, salt app) of
       (Some k, Some s) \<Rightarrow>
         if k = '''' then (app, w)
         else
           let app1 = (if \<not> silent then app\<lparr>loading := True\<rparr> else app);
               (r, w1) = performSync L k s io w;
               w2 = (case r of
                       Inr u \<Rightarrow>
                         if \<not> silent \<and> \<not> managed
                         then w1\<lparr>alerts := alerts w1 @ [''Sync Successful (Local)'']\<rparr>
                         else w1
                     | Inl e \<Rightarrow>
                         let w' = w1\<lparr>console := console w1 @ [String_of e]\<rparr>
                         in if \<not> silent
                            then w'\<lparr>alerts := alerts w' @ [''Sync failed: '' @ String_of e]\<rparr>
                            else w')
           in ((if \<not> silent then app1\<lparr>loading := False\<rparr> else app1), w2)
     | _ \<Rightarrow> (app, w))"

definition handleLogout :: "App \<times> World \<Rightarrow> App \<times> World" where
  "handleLogout = (\<lambda>(app, w).
     (app\<lparr>masterKey := None, salt := None, encryptedData := None, state := WELCOME\<rparr>, w))"

text \<open>
  \<open>handleExport\<close> (App.tsx, lines 452 to 490): the container is written to a cache
  file and shared. \<open>writeFailure\<close> is here the exception of
  \<open>FileSystem.writeAsStringAsync\<close> or of \<open>Sharing.shareAsync\<close>, if one of them throws.
\<close>

definition handleExport_catch :: "exn \<Rightarrow> App \<times> World \<Rightarrow> App \<times> World" where
  "handleExport_catch e = (\<lambda>(app, w).
     (app\<lparr>loading := False\<rparr>,
      w\<lparr>console := console w @ [String_of e],
        alerts := alerts w @ [''Backup Failed: '' @ String_of e]\<rparr>))"

definition handleExport :: "crypto_js \<Rightarrow> sync_io \<Rightarrow> App \<times> World \<Rightarrow> App \<times> World" where
  "handleExport L io = (\<lambda>(app, w).
     case (masterKey app, salt app) of
       (Some k, Some s) \<Rightarrow>
         if k = '''' then (app, w)
         else
           let app1 = app\<lparr>loading := True\<rparr>
           in (case exported io of
                 Inl e \<Rightarrow> handleExport_catch e (app1, w)
               | Inr dbData \<Rightarrow>
                   (case encryptData L dbData k w of
                      (Inl e, w1) \<Rightarrow> handleExport_catch e (app1, w1)
                    | (Inr encrypted, w1) \<Rightarrow>
                        let finalData = s @ encrypted;
                            w2 = w1\<lparr>shared := shared w1 @ [finalData]\<rparr>
                        in (case writeFailure io of
                              Some e \<Rightarrow> handleExport_catch e (app1, w2)
                            | None \<Rightarrow> (app1\<lparr>loading := False\<rparr>, w2))))
     | _ \<Rightarrow> (app, w))"

text \<open>
  The states the application can be in: each screen offers its handlers in its own
  state only (the \<open>return\<close> of \<open>App\<close>). Both versions of \<open>handleOpen\<close> and of
  \<open>handleSync\<close> are steps, so that what holds in every reachable state holds with
  either version.
\<close>

inductive reachable :: "crypto_js \<Rightarrow> World \<Rightarrow> App \<times> World \<Rightarrow> bool"
  for L :: crypto_js and w0 :: World where
  start: "reachable L w0 (initialApp, w0)"
| onOpen: "reachable L w0 (app, w) \<Longrightarrow> state app = WELCOME
    \<Longrightarrow> reachable L w0 (handleOpen_pickFile picked readResult (app, w))"
| onOpen_DocumentPicker: "reachable L w0 (app, w) \<Longrightarrow> state app = WELCOME
    \<Longrightarrow> reachable L w0 (handleOpen_DocumentPicker asset readResult (app, w))"
| onCreate: "reachable L w0 (app, w) \<Longrightarrow> state app = WELCOME
    \<Longrightarrow> reachable L w0 (app\<lparr>state := CREATE_DB_NAME\<rparr>, w)"
| onSubmitName: "reachable L w0 (app, w) \<Longrightarrow> state app = CREATE_DB_NAME
    \<Longrightarrow> reachable L w0 (handleCreateNew customName created (app, w))"
| onCancel: "reachable L w0 (app, w)
    \<Longrightarrow> state app = CREATE_DB_NAME \<or> state app = UNLOCK \<or> state app = CREATE_PASSWORD
    \<Longrightarrow> reachable L w0 (app\<lparr>state := WELCOME\<rparr>, w)"
| onErrorDismiss: "reachable L w0 (app, w)
    \<Longrightarrow> state app = UNLOCK \<or> state app = CREATE_PASSWORD
    \<Longrightarrow> reachable L w0 (app\<lparr>error := ''''\<rparr>, w)"
| onSubmitUnlock: "reachable L w0 (app, w) \<Longrightarrow> state app = UNLOCK
    \<Longrightarrow> reachable L w0 (handleUnlock L password imported (app, w))"
| onSubmitCreate: "reachable L w0 (app, w) \<Longrightarrow> state app = CREATE_PASSWORD
    \<Longrightarrow> reachable L w0 (handleCreatePassword L password initialised io (app, w))"
| onSync: "reachable L w0 (app, w) \<Longrightarrow> state app = READY
    \<Longrightarrow> reachable L w0 (handleSync L silent io (app, w))"
| onSync_isManaged: "reachable L w0 (app, w) \<Longrightarrow> state app = READY
    \<Longrightarrow> reachable L w0 (handleSync_isManaged L managed silent io (app, w))"
| onExport: "reachable L w0 (app, w) \<Longrightarrow> state app = READY
    \<Longrightarrow> reachable L w0 (handleExport L io (app, w))"
| onLogout: "reachable L w0 (app, w) \<Longrightarrow> state app = READY
    \<Longrightarrow> reachable L w0 (handleLogout (app, w))"

text \<open>A run of synchronisations in the \<open>READY\<close> state.\<close>

fun syncs :: "crypto_js \<Rightarrow> (bool \<times> sync_io) list \<Rightarrow> App \<times> World \<Rightarrow> App \<times> World" where
  "syncs L [] st = st"
| "syncs L ((silent, io) # rest) st = syncs L rest (handleSync L silent io st)"

section \<open>Notions of the specification\<close>

text \<open>
  The PKCS7 padding of a plaintext to 16-byte blocks, and what it means for decrypted
  bytes to carry a valid PKCS7 padding: at least one block, a last byte \<open>p\<close> between 1 and
  16, and \<open>p\<close> trailing bytes of value \<open>p\<close>.
\<close>

definition Pkcs7_padded :: "Uint8Array \<Rightarrow> Uint8Array" where
  "Pkcs7_padded P =
     (let n = 16 - length P mod 16 in P @ replicate n (of_nat n))"

definition Pkcs7_valid :: "Uint8Array \<Rightarrow> bool" where
  "Pkcs7_valid raw \<longleftrightarrow>
     raw \<noteq> [] \<and> length raw mod 16 = 0 \<and>
     (let p = unat (last raw)
      in 1 \<le> p \<and> p \<le> 16 \<and> drop (length raw - p) raw = replicate p (last raw))"

text \<open>The bytes that \<open>decryptData\<close> has decrypted before the padding is removed.\<close>

definition decryptedBlocks :: "crypto_js \<Rightarrow> Uint8Array \<Rightarrow> string \<Rightarrow> WordArray" where
  "decryptedBlocks L data keyBase64 =
     AES_decrypt_process L (WordArray_create (drop 12 data)) (Base64_parse L keyBase64)
       (WordArray_create (take 12 data))"

text \<open>
  The ciphertext blocks of a plaintext under a key and an IV, and the bytes of a list of
  blocks.
\<close>

definition blockBytes :: "block list \<Rightarrow> Uint8Array" where
  "blockBytes bs = map (byteAt (wordsOf bs)) [0..<16 * length bs]"

definition cipherBlocks :: "crypto_js \<Rightarrow> string \<Rightarrow> Uint8Array \<Rightarrow> Uint8Array \<Rightarrow> block list" where
  "cipherBlocks L keyBase64 iv P =
     CBC_Encryptor (AES_encryptBlock L (Base64_parse L keyBase64)) (blockAt (bytesToWords iv) 0)
       (blocksOf (bytesToWords (Pkcs7_padded P)) (length P div 16 + 1))"

text \<open>The block permutation of the library decrypts what it encrypts under a key.\<close>

definition cipher_inverts :: "crypto_js \<Rightarrow> string \<Rightarrow> bool" where
  "cipher_inverts L keyBase64 \<longleftrightarrow>
     (\<forall>b. AES_decryptBlock L (Base64_parse L keyBase64)
            (AES_encryptBlock L (Base64_parse L keyBase64) b) = b)"

text \<open>
  In the \<open>READY\<close> state the session holds a key and a salt of 16 bytes.
\<close>

definition session_ok :: "App \<times> World \<Rightarrow> bool" where
  "session_ok st \<longleftrightarrow>
     (state (fst st) = READY \<longrightarrow>
        (\<exists>k s. masterKey (fst st) = Some k \<and> salt (fst st) = Some s \<and> length s = 16))"

text \<open>
  A small instance of the library's parameters, for concrete runs: the block permutation
  rotates the four words of a block.
\<close>

definition rot_key :: string where
  "rot_key = ''AAAAAAAAAAAAAAAAAAAAAAAAAAAAAAAAAAAAAAAAAAA=''"

definition rot_lib :: crypto_js where
  "rot_lib =
     \<lparr>PBKDF2 = (\<lambda>password salt cfg.
                  \<lparr>words = replicate (keySize cfg) 0, sigBytes = int (keySize cfg * 4)\<rparr>),
      Base64_stringify = (\<lambda>wa. rot_key),
      Base64_parse = (\<lambda>s. \<lparr>words = replicate 8 0, sigBytes = 32\<rparr>),
      AES_encryptBlock = (\<lambda>key (a, b, c, d). (b, c, d, a)),
      AES_decryptBlock = (\<lambda>key (a, b, c, d). (d, a, b, c))\<rparr>"

definition zero_world :: World where
  "zero_world = \<lparr>entropy = (\<lambda>i. 0), drawn = 0, console = [], alerts = [], written = [],
                  shared = []\<rparr>"

text \<open>The IV that the next call of \<open>encryptData\<close> draws.\<close>

definition nextIV :: "World \<Rightarrow> Uint8Array" where
  "nextIV w = fst (getRandomBytes 12 w)"

text \<open>A world whose random generator gives 1, 0, 0, \<dots>\<close>

definition one_world :: World where
  "one_world = \<lparr>entropy = (\<lambda>i. if i = 0 then 1 else 0), drawn = 0, console = [], alerts = [],
                 written = [], shared = []\<rparr>"

text \<open>
  A stored file of 28 bytes: 16 bytes of salt and 12 bytes of IV, with no ciphertext
  block; and the session that opens it and submits a password.
\<close>

definition ivOnlyContainer :: Uint8Array where
  "ivOnlyContainer = [1, 2, 3, 4, 5, 6, 7, 8, 9, 10, 11, 12, 13, 14, 15, 16,
                      0, 0, 0, 0, 0, 0, 0, 0, 0, 0, 0, 0]"

definition failedUnlock :: "crypto_js \<Rightarrow> World \<Rightarrow> string \<Rightarrow> App \<times> World" where
  "failedUnlock L w0 password =
     handleUnlock L password None
       (handleOpen_pickFile (Inr (Some ''content://notes.db'')) (Inr (Some ivOnlyContainer))
          (initialApp, w0))"

text \<open>
  A container that \<open>rot_lib\<close> decrypts to the 16 bytes \<open>SQLite format 3\<close> and 0: a salt
  of 16 bytes, the IV of 12 bytes and two ciphertext blocks; and the session that opens
  it and unlocks it.
\<close>

definition demoContainer :: Uint8Array where
  "demoContainer =
     [7, 7, 7, 7, 7, 7, 7, 7, 7, 7, 7, 7, 7, 7, 7, 7,
      0, 0, 0, 0, 0, 0, 0, 0, 0, 0, 0, 0,
      116, 101, 32, 102, 111, 114, 109, 97, 116, 32, 51, 0, 83, 81, 76, 105,
      127, 98, 125, 113, 100, 48, 35, 16, 67, 65, 92, 121, 100, 117, 48, 118]"

definition demoOpened :: "App \<times> World" where
  "demoOpened =
     handleOpen_pickFile (Inr (Some ''content://notes.db'')) (Inr (Some demoContainer))
       (initialApp, zero_world)"

definition demoUnlocked :: "App \<times> World" where
  "demoUnlocked = handleUnlock rot_lib ''hunter2'' None demoOpened"

text \<open>A synchronisation whose write fails, and one that succeeds.\<close>

definition failingWrite :: sync_io where
  "failingWrite = \<lparr>exported = Inr (headerBytes @ [0]), writeFailure = Some (Error ''No file selected'')\<rparr>"

definition savingSync :: sync_io where
  "savingSync = \<lparr>exported = Inr (headerBytes @ [0]), writeFailure = None\<rparr>"


section \<open>Bytes and words\<close>

lemma ff_mask: "(0xff :: word32) = mask 8"
  by (simp add: mask_eq_exp_minus_1)

lemma bit_byteOf: "bit (byteOf k w) n \<longleftrightarrow> n < 8 \<and> bit w (k + n)"
  unfolding ff_mask byteOf_def by (auto simp add: bit_simps)

lemma bit_be32: "bit (be32 a b c d) n \<longleftrightarrow>
   (if n < 8 then bit d n else if n < 16 then bit c (n - 8) else if n < 24 then bit b (n - 16)
    else n < 32 \<and> bit a (n - 24))"
  unfolding be32_def
  by (auto simp add: bit_or_iff bit_push_bit_iff bit_ucast_iff dest: bit_imp_le_length)

lemma be32_byteOf: "be32 (byteOf 24 w) (byteOf 16 w) (byteOf 8 w) (byteOf 0 w) = w"
  by (rule bit_word_eqI) (auto simp add: bit_be32 bit_byteOf)

lemma byteOf_be32:
  "byteOf 24 (be32 a b c d) = a" "byteOf 16 (be32 a b c d) = b"
  "byteOf 8 (be32 a b c d) = c" "byteOf 0 (be32 a b c d) = d"
  by (rule bit_word_eqI; auto simp add: bit_be32 bit_byteOf dest: bit_imp_le_length)+

lemma byteOf_zero: "byteOf k 0 = 0"
  by (simp add: byteOf_def)

lemma byteAt_Cons_low:
  "byteAt (w # ws) 0 = byteOf 24 w" "byteAt (w # ws) (Suc 0) = byteOf 16 w"
  "byteAt (w # ws) 2 = byteOf 8 w" "byteAt (w # ws) 3 = byteOf 0 w"
  by (simp_all add: byteAt_def wget_def)

lemma byteAt_Cons_shift: "byteAt (w # ws) (i + 4) = byteAt ws i"
proof -
  have "(i + 4) div 4 = Suc (i div 4)" "(i + 4) mod 4 = i mod 4" by simp_all
  then show ?thesis by (simp add: byteAt_def wget_def)
qed

lemma byteAt_Nil: "byteAt [] i = 0"
  by (simp add: byteAt_def wget_def byteOf_zero)

lemma upt_4_shift: "[0..<4 + n] = [0, 1, 2, 3] @ map (\<lambda>i. i + 4) [0..<n]"
proof -
  have "[0..<4 + n] = [0..<4] @ [4..<4 + n]"
    using upt_add_eq_append [of 0 4 n] by simp
  moreover have "[0..<4] = [0, 1, 2, 3::nat]"
    by (simp add: upt_rec)
  moreover have "[4..<4 + n] = map (\<lambda>i. i + 4) [0..<n]"
    using map_add_upt [of 4 n] by (simp add: add.commute)
  ultimately show ?thesis by simp
qed

lemma map_byteAt_Cons:
  "map (byteAt (w # ws)) [0..<4 + n] =
     [byteOf 24 w, byteOf 16 w, byteOf 8 w, byteOf 0 w] @ map (byteAt ws) [0..<n]"
  by (simp add: upt_4_shift byteAt_Cons_low byteAt_Cons_shift comp_def del: upt_Suc)

lemma byteAt_bytesToWords: "i < length bs \<Longrightarrow> byteAt (bytesToWords bs) i = bs ! i"
proof (induction bs arbitrary: i rule: bytesToWords.induct)
  case (1 a b c d rest)
  show ?case
  proof (cases "i < 4")
    case True
    then consider "i = 0" | "i = Suc 0" | "i = 2" | "i = 3" by force
    then show ?thesis
      by cases (simp_all add: byteAt_Cons_low byteOf_be32)
  next
    case False
    then obtain j where j: "i = j + 4" by (metis add.commute le_Suc_ex not_less)
    with 1 show ?thesis by (simp add: byteAt_Cons_shift)
  qed
next
  case (2 a b c)
  then consider "i = 0" | "i = Suc 0" | "i = 2" by force
  then show ?case
    by cases (simp_all add: byteAt_Cons_low byteOf_be32)
next
  case (3 a b)
  then consider "i = 0" | "i = Suc 0" by force
  then show ?case by cases (simp_all add: byteAt_Cons_low byteOf_be32)
next
  case (4 a)
  then show ?case by (simp add: byteAt_Cons_low byteOf_be32)
next
  case 5
  then show ?case by simp
qed

lemma map_byteAt_bytesToWords:
  "n \<le> length bs \<Longrightarrow> map (byteAt (bytesToWords bs)) [0..<n] = take n bs"
  by (rule nth_equalityI) (simp_all add: byteAt_bytesToWords)

lemma bytesToWords_map_byteAt:
  "bytesToWords (map (byteAt ws) [0..<4 * length ws]) = ws"
proof (induction ws)
  case Nil
  show ?case by simp
next
  case (Cons w ws)
  have "4 * length (w # ws) = 4 + 4 * length ws" by simp
  then show ?case
    using Cons by (simp only: map_byteAt_Cons) (simp add: be32_byteOf)
qed

lemma length_bytesToWords: "length (bytesToWords bs) = (length bs + 3) div 4"
  by (induction bs rule: bytesToWords.induct) simp_all


lemma length_wordsOf: "length (wordsOf bs) = 4 * length bs"
  by (induction bs) (auto simp add: wordsOf_def)

lemma wordsOf_Cons: "wordsOf ((a, b, c, d) # bs) = a # b # c # d # wordsOf bs"
  by (simp add: wordsOf_def)

lemma wget_Cons: "wget (x # xs) 0 = x" "wget (x # xs) (Suc i) = wget xs i"
  by (simp_all add: wget_def)

lemma blockAt_Cons4:
  "blockAt (a # b # c # d # ws) 0 = (a, b, c, d)"
  "blockAt (a # b # c # d # ws) (4 + k) = blockAt ws k"
proof -
  show "blockAt (a # b # c # d # ws) 0 = (a, b, c, d)"
    by (simp add: blockAt_def wget_Cons numeral_2_eq_2 numeral_3_eq_3)
  have shift: "wget (a # b # c # d # ws) (4 + i) = wget ws i" for i
  proof -
    have "4 + i = Suc (Suc (Suc (Suc i)))" by simp
    then show ?thesis by (simp only: wget_Cons)
  qed
  show "blockAt (a # b # c # d # ws) (4 + k) = blockAt ws k"
    by (simp only: blockAt_def add.assoc shift)
qed

lemma blocksOf_Cons4:
  "blocksOf (a # b # c # d # ws) (Suc n) = (a, b, c, d) # blocksOf ws n"
proof -
  have "[0..<Suc n] = 0 # map Suc [0..<n]"
    by (simp add: upt_conv_Cons map_Suc_upt del: upt_Suc)
  then show ?thesis
    by (simp add: blocksOf_def blockAt_Cons4 comp_def del: upt_Suc)
qed

lemma blocksOf_wordsOf: "blocksOf (wordsOf bs) (length bs) = bs"
proof (induction bs)
  case Nil
  show ?case by (simp add: blocksOf_def)
next
  case (Cons b bs)
  obtain a1 a2 a3 a4 where b: "b = (a1, a2, a3, a4)" by (cases b) auto
  show ?case using Cons by (simp add: b wordsOf_Cons blocksOf_Cons4)
qed

lemma wordsOf_blocksOf: "length ws = 4 * n \<Longrightarrow> wordsOf (blocksOf ws n) = ws"
proof (induction n arbitrary: ws)
  case 0
  then show ?case by (simp add: blocksOf_def wordsOf_def)
next
  case (Suc n)
  then obtain a b c d rest where ws: "ws = a # b # c # d # rest"
    by (cases ws; simp; rename_tac ws1, case_tac ws1; simp; rename_tac ws2, case_tac ws2; simp;
        rename_tac ws3, case_tac ws3; simp)
  with Suc show ?case by (simp add: blocksOf_Cons4 wordsOf_Cons)
qed

lemma length_blocksOf: "length (blocksOf ws n) = n"
  by (simp add: blocksOf_def)

lemma xorBlock_cancel: "xorBlock (xorBlock b p) p = b"
  by (cases b; cases p) (simp add: xor.assoc)

lemma length_CBC_Encryptor: "length (CBC_Encryptor enc prev bs) = length bs"
  by (induction bs arbitrary: prev) (simp_all add: Let_def)

lemma length_CBC_Decryptor: "length (CBC_Decryptor dec prev cs) = length cs"
  by (induction cs arbitrary: prev) simp_all

lemma CBC_roundtrip:
  assumes "\<And>b. dec (enc b) = b"
  shows "CBC_Decryptor dec prev (CBC_Encryptor enc prev bs) = bs"
  by (induction bs arbitrary: prev) (simp_all add: Let_def assms xorBlock_cancel)

section \<open>Encryption and decryption\<close>

lemma sigBytesOf_create: "sigBytesOf (WordArray_create bs) = bs"
  by (simp add: sigBytesOf_def WordArray_create_def map_byteAt_bytesToWords)

lemma length_padded: "length (Pkcs7_padded P) = 16 * (length P div 16 + 1)"
proof -
  have "length P + (16 - length P mod 16) = 16 * (length P div 16 + 1)"
    by presburger
  then show ?thesis by (simp add: Pkcs7_padded_def Let_def)
qed

lemma Pkcs7_pad_create:
  "Pkcs7_pad (WordArray_create P) 4 =
     \<lparr>words = bytesToWords (Pkcs7_padded P), sigBytes = int (length (Pkcs7_padded P))\<rparr>"
  by (simp add: Pkcs7_pad_def Let_def sigBytesOf_create Pkcs7_padded_def)
     (simp add: WordArray_create_def)

lemma nBlocksReady_blocks: "sigBytes wa = int (16 * m) \<Longrightarrow> nBlocksReady wa = m"
  by (simp add: nBlocksReady_def)

lemma length_words_padded: "length (bytesToWords (Pkcs7_padded P)) = 4 * (length P div 16 + 1)"
  by (simp add: length_bytesToWords length_padded)

lemma length_cipherBlocks: "length (cipherBlocks L key iv P) = length P div 16 + 1"
  by (simp add: cipherBlocks_def length_CBC_Encryptor length_blocksOf)

lemma AES_encrypt_create:
  "AES_encrypt L (WordArray_create P) (Base64_parse L key) (WordArray_create iv) =
     \<lparr>words = wordsOf (cipherBlocks L key iv P), sigBytes = int (16 * (length P div 16 + 1))\<rparr>"
proof -
  define m where "m = length P div 16 + 1"
  define data where "data = Pkcs7_pad (WordArray_create P) 4"
  have data: "words data = bytesToWords (Pkcs7_padded P)" "sigBytes data = int (16 * m)"
    by (simp_all add: data_def Pkcs7_pad_create length_padded m_def)
  have n: "nBlocksReady data = m"
    by (rule nBlocksReady_blocks) (rule data)
  have iv: "words (WordArray_create iv) = bytesToWords iv"
    by (simp add: WordArray_create_def)
  have "AES_encrypt L (WordArray_create P) (Base64_parse L key) (WordArray_create iv) =
      \<lparr>words = wordsOf (CBC_Encryptor (AES_encryptBlock L (Base64_parse L key))
                 (blockAt (bytesToWords iv) 0) (blocksOf (bytesToWords (Pkcs7_padded P)) m)),
        sigBytes = min (int (m * 4 * 4)) (int (16 * m))\<rparr>"
    unfolding AES_encrypt_def Let_def data_def [symmetric] n data iv ..
  then show ?thesis
    by (simp add: cipherBlocks_def m_def)
qed

lemma wordToByteArray_blocks:
  "wordToByteArray \<lparr>words = wordsOf bs, sigBytes = int (16 * length bs)\<rparr> = Inr (blockBytes bs)"
proof -
  have "\<not> int (16 * length bs) < 0" by simp
  moreover have "nat (int (16 * length bs)) = 16 * length bs" by (rule nat_int)
  ultimately show ?thesis
    unfolding wordToByteArray_def blockBytes_def
    by (simp only: WordArray.select_convs if_False)
qed

lemma encryptData_eq:
  "encryptData L P key w =
     (Inr (fst (getRandomBytes 12 w) @ blockBytes (cipherBlocks L key (fst (getRandomBytes 12 w)) P)),
      w\<lparr>drawn := drawn w + 12\<rparr>)"
proof -
  obtain iv w1 where r: "getRandomBytes 12 w = (iv, w1)" by (cases "getRandomBytes 12 w")
  then have w1: "w1 = w\<lparr>drawn := drawn w + 12\<rparr>" by (auto simp add: getRandomBytes_def)
  have "wordToByteArray (AES_encrypt L (WordArray_create P) (Base64_parse L key) (WordArray_create iv))
          = Inr (blockBytes (cipherBlocks L key iv P))"
    using wordToByteArray_blocks [of "cipherBlocks L key iv P"]
    by (simp only: AES_encrypt_create length_cipherBlocks)
  then show ?thesis
    by (simp add: encryptData_def r Let_def w1)
qed

lemma length_getRandomBytes: "length (fst (getRandomBytes n w)) = n"
  by (simp add: getRandomBytes_def)

lemma length_blockBytes: "length (blockBytes bs) = 16 * length bs"
  by (simp add: blockBytes_def)

lemma bytesToWords_blockBytes: "bytesToWords (blockBytes bs) = wordsOf bs"
  using bytesToWords_map_byteAt [of "wordsOf bs"]
  by (simp add: blockBytes_def length_wordsOf)

lemma decryptedBlocks_blockBytes:
  assumes "length iv = 12"
  shows "decryptedBlocks L (iv @ blockBytes cs) key =
     \<lparr>words = wordsOf (CBC_Decryptor (AES_decryptBlock L (Base64_parse L key))
                 (blockAt (bytesToWords iv) 0) cs),
      sigBytes = int (16 * length cs)\<rparr>"
  using assms
  by (simp add: decryptedBlocks_def AES_decrypt_process_def WordArray_create_def Let_def
        bytesToWords_blockBytes length_blockBytes nBlocksReady_def blocksOf_wordsOf)

lemma decryptedBlocks_cipherBlocks:
  assumes "length iv = 12" and "cipher_inverts L key"
  shows "decryptedBlocks L (iv @ blockBytes (cipherBlocks L key iv P)) key =
     \<lparr>words = bytesToWords (Pkcs7_padded P), sigBytes = int (length (Pkcs7_padded P))\<rparr>"
proof -
  have "CBC_Decryptor (AES_decryptBlock L (Base64_parse L key)) (blockAt (bytesToWords iv) 0)
          (cipherBlocks L key iv P) = blocksOf (bytesToWords (Pkcs7_padded P)) (length P div 16 + 1)"
    unfolding cipherBlocks_def
    by (rule CBC_roundtrip) (use assms(2) in \<open>simp only: cipher_inverts_def\<close>)
  then show ?thesis
    by (simp add: decryptedBlocks_blockBytes assms(1) wordsOf_blocksOf length_words_padded
          length_cipherBlocks length_padded)
qed

lemma decryptData_unpad:
  "decryptData L data key = wordToByteArray (Pkcs7_unpad (decryptedBlocks L data key))"
  by (simp add: decryptData_def decryptedBlocks_def AES_decrypt_def Let_def)

lemma uint_low_byte: "uint (w AND 0xff) = uint (byteOf 0 w)"
proof -
  have "(ucast (byteOf 0 w) :: word32) = w AND 0xff"
    unfolding ff_mask
    by (rule bit_word_eqI) (auto simp add: bit_ucast_iff bit_byteOf bit_and_iff bit_mask_iff)
  moreover have "uint (ucast (byteOf 0 w) :: word32) = uint (byteOf 0 w)"
    by (rule uint_up_ucast) (simp add: is_up)
  ultimately show ?thesis by simp
qed

lemma byteOf_wget: "byteOf 0 (wget ws j) = byteAt ws (4 * j + 3)"
proof -
  have "(4 * j + 3) div 4 = j" "(4 * j + 3) mod 4 = 3" by simp_all
  then show ?thesis by (simp add: byteAt_def)
qed

lemma last_padded: "Pkcs7_padded P ! (length (Pkcs7_padded P) - 1) = of_nat (16 - length P mod 16)"
proof -
  have "0 < 16 - length P mod 16" by simp
  then have "Pkcs7_padded P \<noteq> []" "last (Pkcs7_padded P) = of_nat (16 - length P mod 16)"
    by (simp_all add: Pkcs7_padded_def Let_def)
  then show ?thesis by (simp add: last_conv_nth)
qed

lemma unpad_padded:
  "Pkcs7_unpad \<lparr>words = bytesToWords (Pkcs7_padded P), sigBytes = int (length (Pkcs7_padded P))\<rparr>
     = \<lparr>words = bytesToWords (Pkcs7_padded P), sigBytes = int (length P)\<rparr>"
proof -
  define m where "m = length P div 16 + 1"
  define n where "n = 16 - length P mod 16"
  have len: "length (Pkcs7_padded P) = 16 * m" by (simp add: length_padded m_def)
  have n: "0 < n" "n \<le> 16" "length (Pkcs7_padded P) = length P + n"
    by (simp_all add: n_def Pkcs7_padded_def Let_def)
  have idx: "ushr2 (int (length (Pkcs7_padded P)) - 1) = 4 * m - 1"
    unfolding len ushr2_def using m_def by (simp add: nat_diff_distrib') 
  have pos: "4 * (4 * m - 1) + 3 = length (Pkcs7_padded P) - 1"
    unfolding len using m_def by simp
  have "uint (wget (bytesToWords (Pkcs7_padded P)) (4 * m - 1) AND 0xff)
          = uint (byteAt (bytesToWords (Pkcs7_padded P)) (length (Pkcs7_padded P) - 1))"
    by (simp only: uint_low_byte byteOf_wget pos)
  also have "\<dots> = uint (Pkcs7_padded P ! (length (Pkcs7_padded P) - 1))"
    using len m_def by (subst byteAt_bytesToWords) simp_all
  also have "\<dots> = uint (of_nat n :: byte)"
    by (simp only: last_padded n_def)
  also have "\<dots> = int n"
    using n by (simp add: uint_nat unat_of_nat)
  finally have p: "uint (wget (bytesToWords (Pkcs7_padded P))
        (ushr2 (int (length (Pkcs7_padded P)) - 1)) AND 0xff) = int n"
    by (simp only: idx)
  show ?thesis
    unfolding Pkcs7_unpad_def Let_def
    by (simp only: WordArray.select_convs p WordArray.update_convs) (simp add: n)
qed

lemma decryptData_payload:
  assumes "length iv = 12" and "cipher_inverts L key"
  shows "decryptData L (iv @ blockBytes (cipherBlocks L key iv P)) key = Inr P"
proof -
  have "decryptData L (iv @ blockBytes (cipherBlocks L key iv P)) key =
          wordToByteArray \<lparr>words = bytesToWords (Pkcs7_padded P), sigBytes = int (length P)\<rparr>"
    by (simp only: decryptData_unpad decryptedBlocks_cipherBlocks [OF assms] unpad_padded)
  also have "\<dots> = Inr (take (length P) (Pkcs7_padded P))"
    by (simp add: wordToByteArray_def map_byteAt_bytesToWords Pkcs7_padded_def Let_def)
  also have "take (length P) (Pkcs7_padded P) = P"
    by (simp add: Pkcs7_padded_def Let_def)
  finally show ?thesis .
qed

section \<open>The small library instance\<close>

lemma deriveKey_rot_lib: "deriveKey rot_lib password s = rot_key"
  by (simp add: deriveKey_def rot_lib_def rot_key_def)

lemma cipher_inverts_rot_lib: "cipher_inverts rot_lib key"
  by (simp add: cipher_inverts_def rot_lib_def)

section \<open>The header check\<close>

lemma headerLoop_iff:
  "headerLoop dbData i \<longleftrightarrow>
     (\<forall>j. i \<le> j \<and> j < length headerBytes \<longrightarrow> j < length dbData \<and> dbData ! j = headerBytes ! j)"
proof (induction dbData i rule: headerLoop.induct)
  case (1 dbData i)
  show ?case
  proof (cases "i < length headerBytes")
    case False
    then show ?thesis by (subst headerLoop.simps) auto
  next
    case True
    show ?thesis
    proof (cases "i < length dbData \<and> dbData ! i = headerBytes ! i")
      case False
      with True show ?thesis
        by (subst headerLoop.simps) auto
    next
      case ok: True
      have "headerLoop dbData i = headerLoop dbData (i + 1)"
        using True ok by (subst headerLoop.simps) simp
      also have "\<dots> \<longleftrightarrow> (\<forall>j. i + 1 \<le> j \<and> j < length headerBytes \<longrightarrow>
                        j < length dbData \<and> dbData ! j = headerBytes ! j)"
        using 1 True ok by simp
      also have "\<dots> \<longleftrightarrow> (\<forall>j. i \<le> j \<and> j < length headerBytes \<longrightarrow>
                        j < length dbData \<and> dbData ! j = headerBytes ! j)"
      proof (intro iffI allI impI)
        fix j
        assume h: "\<forall>j. i + 1 \<le> j \<and> j < length headerBytes \<longrightarrow>
                        j < length dbData \<and> dbData ! j = headerBytes ! j"
          and j: "i \<le> j \<and> j < length headerBytes"
        show "j < length dbData \<and> dbData ! j = headerBytes ! j"
        proof (cases "j = i")
          case True
          with ok show ?thesis by simp
        next
          case False
          with j have "i + 1 \<le> j \<and> j < length headerBytes" by simp
          with h show ?thesis by blast
        qed
      next
        fix j
        assume h: "\<forall>j. i \<le> j \<and> j < length headerBytes \<longrightarrow>
                        j < length dbData \<and> dbData ! j = headerBytes ! j"
          and j: "i + 1 \<le> j \<and> j < length headerBytes"
        then have "i \<le> j \<and> j < length headerBytes" by simp
        with h show "j < length dbData \<and> dbData ! j = headerBytes ! j" by blast
      qed
      finally show ?thesis .
    qed
  qed
qed

lemma length_headerBytes: "length headerBytes = 15"
  by (simp add: headerBytes_def)

lemma isValid_iff: "isValid dbData \<longleftrightarrow> take 15 dbData = headerBytes"
proof
  assume "isValid dbData"
  then have all: "\<And>j. j < 15 \<Longrightarrow> j < length dbData \<and> dbData ! j = headerBytes ! j"
    by (simp add: isValid_def headerLoop_iff length_headerBytes)
  from all [of 14] have "15 \<le> length dbData" by simp
  with all show "take 15 dbData = headerBytes"
    by (simp add: list_eq_iff_nth_eq length_headerBytes)
next
  assume eq: "take 15 dbData = headerBytes"
  then have len: "15 \<le> length dbData"
    by (metis length_headerBytes length_take min.cobounded1)
  have "dbData ! j = headerBytes ! j" if "j < 15" for j
    using that eq by (metis nth_take)
  with len show "isValid dbData"
    by (simp add: isValid_def headerLoop_iff length_headerBytes)
qed

lemma isValid_length: "isValid dbData \<Longrightarrow> 15 \<le> length dbData"
  by (metis isValid_iff length_headerBytes length_take min.cobounded1)

section \<open>What decryptData returns\<close>

lemma sigBytes_decryptedBlocks: "sigBytes (decryptedBlocks L data key) = int (length data - 12)"
proof -
  define n where "n = length data - 12"
  have "nat ((int n + 15) div 16) = (n + 15) div 16"
    by (simp add: nat_div_distrib nat_add_distrib)
  moreover have "n \<le> (n + 15) div 16 * 4 * 4"
    by presburger
  ultimately have "min (int (nat ((int n + 15) div 16) * 4 * 4)) (int n) = int n"
    by simp
  then show ?thesis
    by (simp only: decryptedBlocks_def AES_decrypt_process_def Let_def WordArray_create_def
          nBlocksReady_def WordArray.select_convs length_drop n_def)
qed


lemma Pkcs7_unpad_eq:
  "Pkcs7_unpad raw =
     raw\<lparr>sigBytes := sigBytes raw - int (unat (wget (words raw) (ushr2 (sigBytes raw - 1)) AND 0xff))\<rparr>"
  unfolding Pkcs7_unpad_def Let_def uint_nat ..

lemma wordToByteArray_update:
  "wordToByteArray (raw\<lparr>sigBytes := int n - int p\<rparr>) =
          (if n < p then Inl (RangeError ''Invalid typed array length'')
           else Inr (map (byteAt (words raw)) [0..<n - p]))"
proof (cases "n < p")
  case True
  then show ?thesis by (simp add: wordToByteArray_def)
next
  case False
  then have "nat (int n - int p) = n - p" by simp
  with False show ?thesis
    by (simp add: wordToByteArray_def del: upt_Suc)
qed

lemma take_sigBytesOf:
  "sigBytes raw = int n \<Longrightarrow> take (n - p) (sigBytesOf raw) = map (byteAt (words raw)) [0..<n - p]"
  by (simp add: sigBytesOf_def take_map del: upt_Suc)

lemma decryptData_cases:
  "decryptData L data key =
     (let raw = decryptedBlocks L data key;
          n = length data - 12;
          p = unat (wget (words raw) (ushr2 (int n - 1)) AND 0xff)
      in if n < p then Inl (RangeError ''Invalid typed array length'')
         else Inr (take (n - p) (sigBytesOf raw)))"
  unfolding Let_def decryptData_unpad Pkcs7_unpad_eq sigBytes_decryptedBlocks
    wordToByteArray_update take_sigBytesOf [OF sigBytes_decryptedBlocks] ..


lemma length_sigBytesOf_decryptedBlocks:
  "length (sigBytesOf (decryptedBlocks L data key)) = length data - 12"
  by (simp add: sigBytesOf_def sigBytes_decryptedBlocks)

lemma decryptData_length:
  assumes "decryptData L data key = Inr D"
  shows "length D \<le> length data - 12"
proof -
  define p where "p = unat (wget (words (decryptedBlocks L data key))
                        (ushr2 (int (length data - 12) - 1)) AND 0xff)"
  from assms have "D = take (length data - 12 - p) (sigBytesOf (decryptedBlocks L data key))"
    unfolding decryptData_cases Let_def p_def [symmetric]
    by (cases "length data - 12 < p") simp_all
  then show ?thesis
    by (simp add: length_sigBytesOf_decryptedBlocks)
qed

lemma words_decryptedBlocks_short:
  assumes "length data \<le> 12"
  shows "words (decryptedBlocks L data key) = []"
proof -
  have "nBlocksReady (WordArray_create (drop 12 data)) = 0"
    using assms by (simp add: nBlocksReady_def WordArray_create_def)
  then show ?thesis
    by (simp add: decryptedBlocks_def AES_decrypt_process_def Let_def blocksOf_def wordsOf_def)
qed

lemma decryptData_short:
  assumes "length data \<le> 12"
  shows "decryptData L data key = Inr []"
  using assms unfolding decryptData_cases Let_def words_decryptedBlocks_short [OF assms]
  by (simp add: wget_def)

lemma encryptData_length:
  "\<exists>iv ct w'. encryptData L P key w = (Inr (iv @ ct), w') \<and> length iv = 12
       \<and> length ct = 16 * (length P div 16 + 1)"
proof -
  let ?iv = "fst (getRandomBytes 12 w)"
  let ?ct = "blockBytes (cipherBlocks L key ?iv P)"
  have "encryptData L P key w = (Inr (?iv @ ?ct), w\<lparr>drawn := drawn w + 12\<rparr>)"
    by (rule encryptData_eq)
  moreover have "length ?iv = 12"
    by (rule length_getRandomBytes)
  moreover have "length ?ct = 16 * (length P div 16 + 1)"
    by (simp only: length_blockBytes length_cipherBlocks)
  ultimately show ?thesis by blast
qed

lemma blocksOf_Suc: "blocksOf ws (Suc n) = blockAt ws 0 # map (\<lambda>j. blockAt ws (4 * j)) [1..<Suc n]"
proof -
  have "[0..<Suc n] = 0 # [1..<Suc n]" by (simp add: upt_conv_Cons del: upt_Suc)
  then show ?thesis by (simp add: blocksOf_def del: upt_Suc)
qed

lemma cipherBlocks_first:
  "\<exists>rest. cipherBlocks L key iv P =
      AES_encryptBlock L (Base64_parse L key)
        (xorBlock (blockAt (bytesToWords (Pkcs7_padded P)) 0) (blockAt (bytesToWords iv) 0)) # rest"
  unfolding cipherBlocks_def by (simp add: blocksOf_Suc Let_def del: upt_Suc)

lemma blockBytes_inj:
  assumes "length cs1 = length cs2" and "blockBytes cs1 = blockBytes cs2"
  shows "cs1 = cs2"
proof -
  from assms(2) have "wordsOf cs1 = wordsOf cs2"
    by (metis bytesToWords_blockBytes)
  then have "blocksOf (wordsOf cs1) (length cs1) = blocksOf (wordsOf cs2) (length cs2)"
    using assms(1) by simp
  then show ?thesis by (simp only: blocksOf_wordsOf)
qed

lemma xorBlock_inj: "xorBlock b p = xorBlock b q \<Longrightarrow> p = q"
  by (metis xorBlock_cancel xorBlock.simps prod_cases4 xor.commute)

lemma cipher_inverts_inj:
  assumes "cipher_inverts L key"
    and "AES_encryptBlock L (Base64_parse L key) x = AES_encryptBlock L (Base64_parse L key) y"
  shows "x = y"
  using assms unfolding cipher_inverts_def by metis

lemma iv_block_inj:
  assumes "length iv1 = 12" and "length iv2 = 12"
    and "blockAt (bytesToWords iv1) 0 = blockAt (bytesToWords iv2) 0"
  shows "iv1 = iv2"
proof -
  have len: "length (bytesToWords iv1) = 3" "length (bytesToWords iv2) = 3"
    using assms(1,2) by (simp_all add: length_bytesToWords)
  have "bytesToWords iv1 ! i = bytesToWords iv2 ! i" if "i < 3" for i
  proof -
    from that consider "i = 0" | "i = Suc 0" | "i = Suc (Suc 0)" by force
    then show ?thesis
      using assms(3) len by cases (simp_all add: blockAt_def wget_def)
  qed
  with len have "bytesToWords iv1 = bytesToWords iv2"
    by (simp add: list_eq_iff_nth_eq)
  then have "map (byteAt (bytesToWords iv1)) [0..<12] = map (byteAt (bytesToWords iv2)) [0..<12]"
    by simp
  then show ?thesis
    using assms(1,2) by (simp only: map_byteAt_bytesToWords [of 12] order_refl) simp
qed

lemma cipherBlocks_iv_inj:
  assumes "cipher_inverts L key" and "length iv1 = 12" and "length iv2 = 12"
    and "blockBytes (cipherBlocks L key iv1 P) = blockBytes (cipherBlocks L key iv2 P)"
  shows "iv1 = iv2"
proof -
  have "cipherBlocks L key iv1 P = cipherBlocks L key iv2 P"
    using assms(4) by (intro blockBytes_inj) (simp_all add: length_cipherBlocks)
  moreover obtain r1 where "cipherBlocks L key iv1 P =
      AES_encryptBlock L (Base64_parse L key)
        (xorBlock (blockAt (bytesToWords (Pkcs7_padded P)) 0) (blockAt (bytesToWords iv1) 0)) # r1"
    using cipherBlocks_first by blast
  moreover obtain r2 where "cipherBlocks L key iv2 P =
      AES_encryptBlock L (Base64_parse L key)
        (xorBlock (blockAt (bytesToWords (Pkcs7_padded P)) 0) (blockAt (bytesToWords iv2) 0)) # r2"
    using cipherBlocks_first by blast
  ultimately have "AES_encryptBlock L (Base64_parse L key)
        (xorBlock (blockAt (bytesToWords (Pkcs7_padded P)) 0) (blockAt (bytesToWords iv1) 0)) =
      AES_encryptBlock L (Base64_parse L key)
        (xorBlock (blockAt (bytesToWords (Pkcs7_padded P)) 0) (blockAt (bytesToWords iv2) 0))"
    by simp
  then have "blockAt (bytesToWords iv1) 0 = blockAt (bytesToWords iv2) 0"
    using assms(1) cipher_inverts_inj xorBlock_inj by blast
  then show ?thesis
    using assms(2,3) by (rule iv_block_inj [rotated 2])
qed

section \<open>The handlers\<close>

lemma handleUnlock_ok:
  assumes "encryptedData app = Some E"
    and "decryptData L (drop 16 E) (deriveKey L password (take 16 E)) = Inr D"
    and "isValid D" and "imported = None"
  shows "handleUnlock L password imported (app, w) =
     (app\<lparr>loading := False, error := '''', salt := Some (take 16 E),
          masterKey := Some (deriveKey L password (take 16 E)), state := READY\<rparr>, w)"
  using assms by (simp add: handleUnlock_def Let_def)

lemma handleUnlock_fail:
  assumes "encryptedData app = Some E"
    and "\<not> (\<exists>D. decryptData L (drop 16 E) (deriveKey L password (take 16 E)) = Inr D
              \<and> isValid D \<and> imported = None)"
  shows "\<exists>e. handleUnlock L password imported (app, w) =
     (app\<lparr>loading := False, error := ''Incorrect password or corrupted file.'',
          salt := Some (take 16 E)\<rparr>, w\<lparr>console := console w @ [String_of e]\<rparr>)"
proof (cases "decryptData L (drop 16 E) (deriveKey L password (take 16 E))")
  case (Inl e)
  with assms(1) show ?thesis
    by (intro exI [of _ e]) (simp add: handleUnlock_def Let_def handleUnlock_catch_def)
next
  case (Inr D)
  show ?thesis
  proof (cases "isValid D")
    case False
    with Inr assms(1) show ?thesis
      by (intro exI [of _ "Error ''Invalid password or corrupted database file.''"])
         (simp add: handleUnlock_def Let_def handleUnlock_catch_def)
  next
    case True
    with Inr assms(2) obtain e where "imported = Some e" by auto
    with True Inr assms(1) show ?thesis
      by (intro exI [of _ e]) (simp add: handleUnlock_def Let_def handleUnlock_catch_def)
  qed
qed

lemma unlocked_salt_length:
  assumes "decryptData L (drop 16 E) key = Inr D" and "isValid D"
  shows "length (take 16 E) = 16"
proof -
  have "15 \<le> length D" using assms(2) by (rule isValid_length)
  moreover have "length D \<le> length (drop 16 E) - 12" using assms(1) by (rule decryptData_length)
  ultimately show ?thesis by simp
qed

lemma handleOpen_pickFile_state:
  "state app \<noteq> READY \<Longrightarrow> state (fst (handleOpen_pickFile picked readResult (app, w))) \<noteq> READY"
  by (auto simp add: handleOpen_pickFile_def handleOpen_catch_def Let_def
        split: sum.splits option.splits if_splits)

lemma handleOpen_DocumentPicker_state:
  "state app \<noteq> READY \<Longrightarrow> state (fst (handleOpen_DocumentPicker picked readResult (app, w))) \<noteq> READY"
  by (auto simp add: handleOpen_DocumentPicker_def handleOpen_catch_def Let_def
        split: sum.splits option.splits if_splits prod.splits)

lemma handleCreateNew_state:
  "state app \<noteq> READY \<Longrightarrow> state (fst (handleCreateNew customName created (app, w))) \<noteq> READY"
  by (auto simp add: handleCreateNew_def Let_def split: option.splits)

lemma handleUnlock_session_ok:
  assumes "state app \<noteq> READY"
  shows "session_ok (handleUnlock L password imported (app, w))"
proof (cases "encryptedData app")
  case None
  with assms show ?thesis by (simp add: handleUnlock_def session_ok_def)
next
  case (Some E)
  show ?thesis
  proof (cases "\<exists>D. decryptData L (drop 16 E) (deriveKey L password (take 16 E)) = Inr D
              \<and> isValid D \<and> imported = None")
    case True
    then obtain D where D: "decryptData L (drop 16 E) (deriveKey L password (take 16 E)) = Inr D"
      "isValid D" "imported = None" by blast
    from unlocked_salt_length [OF D(1,2)] show ?thesis
      by (simp add: handleUnlock_ok [OF Some D] session_ok_def)
  next
    case False
    from handleUnlock_fail [OF Some False] obtain e where
      "handleUnlock L password imported (app, w) =
         (app\<lparr>loading := False, error := ''Incorrect password or corrupted file.'',
          salt := Some (take 16 E)\<rparr>, w\<lparr>console := console w @ [String_of e]\<rparr>)" by blast
    with assms show ?thesis by (simp add: session_ok_def)
  qed
qed

lemma performSync_export_failed:
  "exported io = Inl e \<Longrightarrow> performSync L k s io w = (Inl e, w)"
  by (simp add: performSync_def)

lemma performSync_exported:
  assumes "exported io = Inr db"
  shows "performSync L k s io w =
     ((case writeFailure io of Some e \<Rightarrow> Inl e | None \<Rightarrow> Inr ()),
      w\<lparr>drawn := drawn w + 12,
        written := written w @ [s @ fst (getRandomBytes 12 w)
                     @ blockBytes (cipherBlocks L k (fst (getRandomBytes 12 w)) db)]\<rparr>)"
  using assms by (simp add: performSync_def encryptData_eq Let_def split: option.splits)

lemma performSync_world:
  "console (snd (performSync L k s io w)) = console w"
  "alerts (snd (performSync L k s io w)) = alerts w"
  "entropy (snd (performSync L k s io w)) = entropy w"
  by (cases "exported io"; simp add: performSync_export_failed performSync_exported)+

lemma performSync_written:
  "\<exists>cs. written (snd (performSync L k s io w)) = written w @ cs \<and>
        (\<forall>c\<in>set cs. \<exists>db. exported io = Inr db \<and> take (length s) c = s \<and>
            length c = length s + 12 + 16 * (length db div 16 + 1))"
proof (cases "exported io")
  case (Inl e)
  then show ?thesis by (simp add: performSync_export_failed)
next
  case (Inr db)
  show ?thesis
    unfolding performSync_exported [OF Inr]
    by (rule exI [of _ "[s @ fst (getRandomBytes 12 w)
                     @ blockBytes (cipherBlocks L k (fst (getRandomBytes 12 w)) db)]"])
       (simp add: Inr length_getRandomBytes length_blockBytes length_cipherBlocks)
qed

lemma handleSync_app:
  "fst (handleSync L silent io (app, w)) = app \<or>
   fst (handleSync L silent io (app, w)) = app\<lparr>loading := False\<rparr>"
  by (auto simp add: handleSync_def Let_def split: option.splits prod.splits sum.splits)

lemma handleSync_fields:
  "state (fst (handleSync L silent io (app, w))) = state app"
  "masterKey (fst (handleSync L silent io (app, w))) = masterKey app"
  "salt (fst (handleSync L silent io (app, w))) = salt app"
  "encryptedData (fst (handleSync L silent io (app, w))) = encryptedData app"
  "error (fst (handleSync L silent io (app, w))) = error app"
  using handleSync_app [of L silent io app w] by auto

lemma handleSync_synced:
  assumes "masterKey app = Some k" and "k \<noteq> ''''" and "salt app = Some s"
  shows "handleSync L silent io (app, w) =
     ((if silent then app else app\<lparr>loading := False\<rparr>),
      (case fst (performSync L k s io w) of
         Inr u \<Rightarrow> snd (performSync L k s io w)
       | Inl e \<Rightarrow>
           (if silent
            then (snd (performSync L k s io w))
                   \<lparr>console := console (snd (performSync L k s io w)) @ [String_of e]\<rparr>
            else (snd (performSync L k s io w))
                   \<lparr>console := console (snd (performSync L k s io w)) @ [String_of e],
                    alerts := alerts (snd (performSync L k s io w)) @ [''Sync failed: '' @ String_of e]\<rparr>)))"
  using assms
  by (cases "performSync L k s io w"; cases "fst (performSync L k s io w)")
     (simp_all add: handleSync_def Let_def)

lemma handleSync_not_synced:
  assumes "masterKey app = None \<or> masterKey app = Some '''' \<or> salt app = None"
  shows "handleSync L silent io (app, w) = (app, w)"
  using assms by (auto simp add: handleSync_def split: option.splits)

lemma handleSync_written:
  assumes "salt app = Some s"
  shows "\<exists>cs. written (snd (handleSync L silent io (app, w))) = written w @ cs \<and>
        (\<forall>c\<in>set cs. \<exists>db. exported io = Inr db \<and> take (length s) c = s \<and>
            length c = length s + 12 + 16 * (length db div 16 + 1))"
proof (cases "masterKey app = None \<or> masterKey app = Some ''''")
  case True
  then have "handleSync L silent io (app, w) = (app, w)"
    by (intro handleSync_not_synced) auto
  then show ?thesis by simp
next
  case False
  then obtain k where k: "masterKey app = Some k" "k \<noteq> ''''" by auto
  have "written (snd (handleSync L silent io (app, w))) = written (snd (performSync L k s io w))"
    unfolding handleSync_synced [OF k assms]
    by (cases "fst (performSync L k s io w)") simp_all
  then show ?thesis
    using performSync_written [of L k s io w] by simp
qed

lemma length_generateSalt: "length (fst (generateSalt w)) = 16"
  by (simp add: generateSalt_def length_getRandomBytes)

lemma handleCreatePassword_session_ok:
  assumes "state app \<noteq> READY"
  shows "session_ok (handleCreatePassword L password initialised io (app, w))"
  using assms length_generateSalt [of w]
  by (cases "generateSalt w")
     (auto simp add: session_ok_def handleCreatePassword_def handleCreatePassword_catch_def Let_def
        split: option.splits prod.splits sum.splits)

lemma handleSync_session_ok:
  assumes "session_ok (app, w)"
  shows "session_ok (handleSync L silent io (app, w))"
  using assms by (simp add: session_ok_def handleSync_fields)

lemma handleSync_isManaged_app:
  "fst (handleSync_isManaged L managed silent io (app, w)) = app \<or>
   fst (handleSync_isManaged L managed silent io (app, w)) = app\<lparr>loading := False\<rparr>"
  by (auto simp add: handleSync_isManaged_def Let_def split: option.splits prod.splits sum.splits)

lemma handleSync_isManaged_session_ok:
  assumes "session_ok (app, w)"
  shows "session_ok (handleSync_isManaged L managed silent io (app, w))"
  using assms handleSync_isManaged_app [of L managed silent io app w]
  by (auto simp add: session_ok_def)

lemma handleExport_app:
  "fst (handleExport L io (app, w)) = app \<or>
   fst (handleExport L io (app, w)) = app\<lparr>loading := False\<rparr>"
  by (auto simp add: handleExport_def handleExport_catch_def Let_def
        split: option.splits prod.splits sum.splits)

lemma handleExport_session_ok:
  assumes "session_ok (app, w)"
  shows "session_ok (handleExport L io (app, w))"
  using assms handleExport_app [of L io app w] by (auto simp add: session_ok_def)

lemma handleExport_written: "written (snd (handleExport L io (app, w))) = written w"
  by (auto simp add: handleExport_def handleExport_catch_def Let_def encryptData_eq
        split: option.splits prod.splits sum.splits)

lemma reachable_session_ok: "reachable L w0 st \<Longrightarrow> session_ok st"
proof (induction rule: reachable.induct)
  case start
  show ?case by (simp add: session_ok_def initialApp_def)
next
  case (onOpen app w picked readResult)
  then show ?case
    using handleOpen_pickFile_state [of app picked readResult w] by (simp add: session_ok_def)
next
  case (onOpen_DocumentPicker app w asset readResult)
  then show ?case
    using handleOpen_DocumentPicker_state [of app asset readResult w] by (simp add: session_ok_def)
next
  case (onCreate app w)
  show ?case by (simp add: session_ok_def)
next
  case (onSubmitName app w customName created)
  then show ?case
    using handleCreateNew_state [of app customName created w] by (simp add: session_ok_def)
next
  case (onCancel app w)
  show ?case by (simp add: session_ok_def)
next
  case (onErrorDismiss app w)
  then show ?case by (auto simp add: session_ok_def)
next
  case (onSubmitUnlock app w password imported)
  then show ?case by (intro handleUnlock_session_ok) simp
next
  case (onSubmitCreate app w password initialised io)
  then show ?case by (intro handleCreatePassword_session_ok) simp
next
  case (onSync app w silent io)
  then show ?case by (intro handleSync_session_ok)
next
  case (onSync_isManaged app w managed silent io)
  then show ?case by (intro handleSync_isManaged_session_ok)
next
  case (onExport app w io)
  then show ?case by (intro handleExport_session_ok)
next
  case (onLogout app w)
  show ?case by (simp add: session_ok_def handleLogout_def)
qed

lemma syncs_written:
  assumes "salt app = Some s"
  shows "salt (fst (syncs L evs (app, w))) = Some s \<and>
         masterKey (fst (syncs L evs (app, w))) = masterKey app \<and>
         state (fst (syncs L evs (app, w))) = state app \<and>
         (\<exists>cs. written (snd (syncs L evs (app, w))) = written w @ cs \<and>
               (\<forall>c\<in>set cs. take (length s) c = s))"
  using assms
proof (induction evs arbitrary: app w)
  case Nil
  then show ?case by simp
next
  case (Cons ev evs)
  obtain silent io where ev: "ev = (silent, io)" by (cases ev)
  obtain app1 w1 where st: "handleSync L silent io (app, w) = (app1, w1)"
    by (cases "handleSync L silent io (app, w)")
  have f: "salt app1 = Some s" "masterKey app1 = masterKey app" "state app1 = state app"
    using handleSync_fields [of L silent io app w] Cons.prems by (simp_all add: st)
  from handleSync_written [OF Cons.prems, of L silent io w] obtain cs1 where
    cs1: "written w1 = written w @ cs1" "\<forall>c\<in>set cs1. take (length s) c = s"
    unfolding st by auto
  from Cons.IH [OF f(1), of w1] obtain cs2 where
    cs2: "written (snd (syncs L evs (app1, w1))) = written w1 @ cs2"
      "\<forall>c\<in>set cs2. take (length s) c = s"
    and g: "salt (fst (syncs L evs (app1, w1))) = Some s"
      "masterKey (fst (syncs L evs (app1, w1))) = masterKey app1"
      "state (fst (syncs L evs (app1, w1))) = state app1"
    by auto
  have "written (snd (syncs L evs (app1, w1))) = written w @ (cs1 @ cs2)"
    "\<forall>c\<in>set (cs1 @ cs2). take (length s) c = s"
    using cs1 cs2 by auto
  with f g show ?case
    unfolding ev syncs.simps st
    by (intro conjI exI [of _ "cs1 @ cs2"]) simp_all
qed

lemma nextIV_eq: "nextIV w = map (entropy w) [drawn w..<drawn w + 12]"
  by (simp add: nextIV_def getRandomBytes_def)

lemma length_nextIV: "length (nextIV w) = 12"
  by (simp add: nextIV_def length_getRandomBytes)

lemma encryptData_nextIV:
  "encryptData L P key w =
     (Inr (nextIV w @ blockBytes (cipherBlocks L key (nextIV w) P)), w\<lparr>drawn := drawn w + 12\<rparr>)"
  unfolding nextIV_def by (rule encryptData_eq)

lemma handleOpen_pickFile_opened:
  assumes "uri \<noteq> ''''" and "data \<noteq> []"
  shows "handleOpen_pickFile (Inr (Some uri)) (Inr (Some data)) (app, w) =
           (app\<lparr>loading := False, error := '''', encryptedData := Some data, state := UNLOCK\<rparr>, w)"
  using assms by (simp add: handleOpen_pickFile_def Let_def)

lemma failedUnlock_eq:
  "\<exists>e. failedUnlock L w0 password =
     (initialApp\<lparr>loading := False, error := ''Incorrect password or corrupted file.'',
                 encryptedData := Some ivOnlyContainer, state := UNLOCK,
                 salt := Some (take 16 ivOnlyContainer)\<rparr>,
      w0\<lparr>console := console w0 @ [String_of e]\<rparr>)"
proof -
  have "decryptData L (drop 16 ivOnlyContainer) (deriveKey L password (take 16 ivOnlyContainer)) = Inr []"
    by (rule decryptData_short) (simp add: ivOnlyContainer_def)
  moreover have "\<not> isValid []"
    by (simp add: isValid_iff headerBytes_def)
  ultimately have "\<not> (\<exists>D. decryptData L (drop 16 ivOnlyContainer)
                           (deriveKey L password (take 16 ivOnlyContainer)) = Inr D
              \<and> isValid D \<and> (None :: exn option) = None)"
    by auto
  from handleUnlock_fail [OF _ this, of "initialApp\<lparr>loading := False, error := '''',
        encryptedData := Some ivOnlyContainer, state := UNLOCK\<rparr>" w0]
  obtain e where "handleUnlock L password None
     (initialApp\<lparr>loading := False, error := '''', encryptedData := Some ivOnlyContainer,
                 state := UNLOCK\<rparr>, w0) =
     (initialApp\<lparr>loading := False, error := '''', encryptedData := Some ivOnlyContainer,
                 state := UNLOCK\<rparr>
        \<lparr>loading := False, error := ''Incorrect password or corrupted file.'',
         salt := Some (take 16 ivOnlyContainer)\<rparr>,
      w0\<lparr>console := console w0 @ [String_of e]\<rparr>)"
    by auto
  moreover have "ivOnlyContainer \<noteq> []" by (simp add: ivOnlyContainer_def)
  ultimately show ?thesis
    by (intro exI [of _ e]) (simp add: failedUnlock_def handleOpen_pickFile_opened)
qed

lemma failedUnlock_reachable: "reachable L w0 (failedUnlock L w0 password)"
proof -
  have "reachable L w0 (initialApp, w0)" by (rule reachable.start)
  then have "reachable L w0 (handleOpen_pickFile (Inr (Some ''content://notes.db''))
                 (Inr (Some ivOnlyContainer)) (initialApp, w0))"
    by (rule reachable.onOpen) (simp add: initialApp_def)
  moreover have "ivOnlyContainer \<noteq> []" by (simp add: ivOnlyContainer_def)
  ultimately have "reachable L w0
      (initialApp\<lparr>loading := False, error := '''', encryptedData := Some ivOnlyContainer,
                  state := UNLOCK\<rparr>, w0)"
    by (simp add: handleOpen_pickFile_opened)
  then have "reachable L w0 (handleUnlock L password None
      (initialApp\<lparr>loading := False, error := '''', encryptedData := Some ivOnlyContainer,
                  state := UNLOCK\<rparr>, w0))"
    by (rule reachable.onSubmitUnlock) simp
  moreover have "ivOnlyContainer \<noteq> []" by (simp add: ivOnlyContainer_def)
  ultimately show ?thesis
    by (simp add: failedUnlock_def handleOpen_pickFile_opened)
qed

lemma demoOpened_eq:
  "demoOpened = (initialApp\<lparr>loading := False, error := '''', encryptedData := Some demoContainer,
                            state := UNLOCK\<rparr>, zero_world)"
proof -
  have "demoContainer \<noteq> []" by (simp add: demoContainer_def)
  then show ?thesis by (simp add: demoOpened_def handleOpen_pickFile_opened)
qed

lemma demoContainer_decrypts:
  "decryptData rot_lib (drop 16 demoContainer) (deriveKey rot_lib ''hunter2'' (take 16 demoContainer))
     = Inr (headerBytes @ [0])"
proof -
  have "decryptData rot_lib (drop 16 demoContainer) rot_key = Inr (headerBytes @ [0])"
    by code_simp
  then show ?thesis by (simp only: deriveKey_rot_lib)
qed

lemma isValid_demo: "isValid (headerBytes @ [0])"
  by (simp add: isValid_iff length_headerBytes)

lemma demoUnlocked_eq:
  "demoUnlocked = ((fst demoOpened)\<lparr>loading := False, error := '''', salt := Some (take 16 demoContainer),
          masterKey := Some (deriveKey rot_lib ''hunter2'' (take 16 demoContainer)), state := READY\<rparr>,
        zero_world)"
proof -
  have "encryptedData (fst demoOpened) = Some demoContainer"
    by (simp add: demoOpened_eq)
  from handleUnlock_ok [OF this demoContainer_decrypts isValid_demo refl, of zero_world]
  show ?thesis
    by (simp add: demoUnlocked_def) (simp add: demoOpened_eq)
qed

lemma demoOpened_reachable: "reachable rot_lib zero_world demoOpened"
  unfolding demoOpened_def
  by (rule reachable.onOpen [OF reachable.start]) (simp add: initialApp_def)

lemma demoUnlocked_reachable: "reachable rot_lib zero_world demoUnlocked"
proof -
  have "reachable rot_lib zero_world (fst demoOpened, snd demoOpened)"
    using demoOpened_reachable by simp
  then have "reachable rot_lib zero_world
               (handleUnlock rot_lib ''hunter2'' None (fst demoOpened, snd demoOpened))"
    by (rule reachable.onSubmitUnlock) (simp add: demoOpened_eq)
  then show ?thesis by (simp add: demoUnlocked_def)
qed

lemma endsWith_notes_db: "endsWith (toLowerCase ''notes.db'') ''.db''"
  by code_simp

lemma handleOpen_pickFile_read:
  assumes "uri \<noteq> ''''"
  shows "handleOpen_pickFile (Inr (Some uri)) (Inr (Some [])) (app, w) =
           (app\<lparr>loading := False, error := '''', state := CREATE_PASSWORD\<rparr>, w)"
    and "data \<noteq> [] \<Longrightarrow> handleOpen_pickFile (Inr (Some uri)) (Inr (Some data)) (app, w) =
           (app\<lparr>loading := False, error := '''', encryptedData := Some data, state := UNLOCK\<rparr>, w)"
    and "handleOpen_pickFile (Inr (Some uri)) (Inr None) (app, w) =
           (app\<lparr>loading := False,
                error := ''Failed to open file: Error: Could not read file content. The file might be corrupted or inaccessible.''\<rparr>,
            w\<lparr>console := console w @
              [''Error: Could not read file content. The file might be corrupted or inaccessible.'']\<rparr>)"
    and "handleOpen_pickFile (Inr (Some uri)) (Inl e) (app, w) =
           (app\<lparr>loading := False, error := ''Failed to open file: '' @ String_of e\<rparr>,
            w\<lparr>console := console w @ [String_of e]\<rparr>)"
  using assms by (simp_all add: handleOpen_pickFile_def handleOpen_catch_def Let_def)

lemma performSync_write_failed:
  assumes "exported io = Inr db" and "writeFailure io = Some e"
  shows "fst (performSync L k s io w) = Inl e"
  using assms by (simp add: performSync_exported)

lemma handleCreatePassword_salt:
  "salt (fst (handleCreatePassword L password initialised io (app, w))) = Some (fst (generateSalt w))"
  by (cases "generateSalt w")
     (auto simp add: handleCreatePassword_def handleCreatePassword_catch_def Let_def
        split: option.splits prod.splits sum.splits)

lemma generateSalt_world:
  "written (snd (generateSalt w)) = written w" "drawn (snd (generateSalt w)) = drawn w + 16"
  by (simp_all add: generateSalt_def getRandomBytes_def)

lemma handleCreatePassword_written:
  "\<exists>cs. written (snd (handleCreatePassword L password initialised io (app, w))) = written w @ cs \<and>
        (\<forall>c\<in>set cs. \<exists>db. exported io = Inr db \<and>
            length c = 28 + 16 * (length db div 16 + 1))"
proof (cases initialised)
  case (Some e)
  then have "written (snd (handleCreatePassword L password initialised io (app, w))) = written w"
    using generateSalt_world(1) [of w]
    by (cases "generateSalt w")
       (simp add: handleCreatePassword_def handleCreatePassword_catch_def Let_def)
  then show ?thesis by simp
next
  case None
  obtain s w1 where g: "generateSalt w = (s, w1)" by (cases "generateSalt w")
  then have s: "length s = 16" "written w1 = written w"
    using length_generateSalt [of w] generateSalt_world(1) [of w] by simp_all
  have "written (snd (handleCreatePassword L password initialised io (app, w))) =
          written (snd (performSync L (deriveKey L password s) s io w1))"
    by (cases "performSync L (deriveKey L password s) s io w1";
        cases "fst (performSync L (deriveKey L password s) s io w1)")
       (simp_all add: handleCreatePassword_def handleCreatePassword_catch_def Let_def g None)
  moreover obtain cs where
    "written (snd (performSync L (deriveKey L password s) s io w1)) = written w1 @ cs"
    "\<forall>c\<in>set cs. \<exists>db. exported io = Inr db \<and> take (length s) c = s \<and>
            length c = length s + 12 + 16 * (length db div 16 + 1)"
    using performSync_written [of L "deriveKey L password s" s io w1] by blast
  ultimately show ?thesis
    using s by (intro exI [of _ cs]) auto
qed

lemma SafProvider_read_selected:
  assumes "uri \<noteq> ''''"
  shows "fst (SafProvider_read (Some uri) fileRead w)
           = (case fileRead of Inl e \<Rightarrow> Inl e | Inr bytes \<Rightarrow> Inr (Some bytes))"
    and "fst (SafProvider_read_AndroidSAF (Some uri) fileRead w)
           = (case fileRead of Inl e \<Rightarrow> Inr None | Inr bytes \<Rightarrow> Inr (Some bytes))"
  using assms
  by (simp_all add: SafProvider_read_def SafProvider_read_AndroidSAF_def split: sum.splits)

lemma handleSync_isManaged_failure:
  assumes "masterKey app = Some k" and "salt app = Some s"
    and "fst (performSync L k s io w) = Inl e"
  shows "handleSync_isManaged L managed silent io (app, w) = handleSync L silent io (app, w)"
  using assms
  by (cases "performSync L k s io w") (simp add: handleSync_isManaged_def handleSync_def Let_def)

lemma unat_low_byte_le: "unat (w AND 0xff) \<le> 255" for w :: word32
proof -
  have "unat (w AND 0xff) \<le> unat (0xff :: word32)"
    by (rule word_and_le1 [THEN word_le_nat_alt [THEN iffD1]])
  then show ?thesis by simp
qed

lemma decryptData_long_never_fails:
  assumes "256 \<le> length data - 12"
  shows "\<exists>D. decryptData L data key = Inr D"
proof -
  define p where "p = unat (wget (words (decryptedBlocks L data key))
                        (ushr2 (int (length data - 12) - 1)) AND 0xff)"
  have "p \<le> 255" unfolding p_def by (rule unat_low_byte_le)
  with assms have "\<not> length data - 12 < p" by simp
  then show ?thesis
    unfolding decryptData_cases Let_def p_def [symmetric] by simp
qed

lemma decryptedBlocks_unpadded:
  assumes "length iv = 12" and "cipher_inverts L key"
  shows "decryptedBlocks L (iv @ blockBytes (CBC_Encryptor (AES_encryptBlock L (Base64_parse L key))
            (blockAt (bytesToWords iv) 0) bs)) key
         = \<lparr>words = wordsOf bs, sigBytes = int (16 * length bs)\<rparr>"
proof -
  have "CBC_Decryptor (AES_decryptBlock L (Base64_parse L key)) (blockAt (bytesToWords iv) 0)
          (CBC_Encryptor (AES_encryptBlock L (Base64_parse L key)) (blockAt (bytesToWords iv) 0) bs) = bs"
    by (rule CBC_roundtrip) (use assms(2) in \<open>simp only: cipher_inverts_def\<close>)
  then show ?thesis
    by (simp only: decryptedBlocks_blockBytes [OF assms(1)] length_CBC_Encryptor)
qed

lemma last_blockBytes:
  assumes "bs \<noteq> []"
  shows "unat (wget (wordsOf bs) (ushr2 (int (16 * length bs) - 1)) AND 0xff)
           = unat (last (blockBytes bs))"
proof -
  define m where "m = length bs"
  have m: "0 < m" using assms by (simp add: m_def)
  have idx: "ushr2 (int (16 * m) - 1) = 4 * m - 1"
    unfolding ushr2_def using m by (simp add: nat_diff_distrib')
  have pos: "4 * (4 * m - 1) + 3 = 16 * m - 1"
    using m by simp
  have "uint (wget (wordsOf bs) (4 * m - 1) AND 0xff) = uint (byteAt (wordsOf bs) (16 * m - 1))"
    by (simp only: uint_low_byte byteOf_wget pos)
  then have "nat (uint (wget (wordsOf bs) (4 * m - 1) AND 0xff))
               = nat (uint (byteAt (wordsOf bs) (16 * m - 1)))"
    by (rule arg_cong)
  then have "unat (wget (wordsOf bs) (4 * m - 1) AND 0xff) = unat (byteAt (wordsOf bs) (16 * m - 1))"
    by (simp only: nat_uint_eq)
  moreover have "last (blockBytes bs) = byteAt (wordsOf bs) (16 * m - 1)"
  proof -
    have "blockBytes bs \<noteq> []" using m by (simp add: blockBytes_def m_def)
    then have "last (blockBytes bs) = blockBytes bs ! (length (blockBytes bs) - 1)"
      by (rule last_conv_nth)
    also have "\<dots> = byteAt (wordsOf bs) (16 * m - 1)"
      using m by (simp add: blockBytes_def m_def)
    finally show ?thesis .
  qed
  ultimately have "unat (wget (wordsOf bs) (ushr2 (int (16 * m) - 1)) AND 0xff)
                     = unat (last (blockBytes bs))"
    by (simp only: idx)
  then show ?thesis by (simp only: m_def)
qed

lemma sigBytesOf_blocks:
  "sigBytesOf \<lparr>words = wordsOf bs, sigBytes = int (16 * length bs)\<rparr> = blockBytes bs"
  unfolding sigBytesOf_def blockBytes_def by (simp only: WordArray.select_convs nat_int)

lemma decryptData_unpadded:
  assumes "length iv = 12" and "cipher_inverts L key" and "bs \<noteq> []"
  shows "decryptData L (iv @ blockBytes (CBC_Encryptor (AES_encryptBlock L (Base64_parse L key))
            (blockAt (bytesToWords iv) 0) bs)) key
         = (if 16 * length bs < unat (last (blockBytes bs))
            then Inl (RangeError ''Invalid typed array length'')
            else Inr (take (16 * length bs - unat (last (blockBytes bs))) (blockBytes bs)))"
proof -
  have n: "length (iv @ blockBytes (CBC_Encryptor (AES_encryptBlock L (Base64_parse L key))
            (blockAt (bytesToWords iv) 0) bs)) - 12 = 16 * length bs"
    using assms(1) by (simp add: length_blockBytes length_CBC_Encryptor)
  show ?thesis
    unfolding decryptData_cases Let_def decryptedBlocks_unpadded [OF assms(1,2)] n
      WordArray.select_convs last_blockBytes [OF assms(3)] sigBytesOf_blocks ..
qed

lemma handleLogout_clears:
  "masterKey (fst (handleLogout (app, w))) = None \<and> salt (fst (handleLogout (app, w))) = None
   \<and> encryptedData (fst (handleLogout (app, w))) = None
   \<and> state (fst (handleLogout (app, w))) = WELCOME"
  by (simp add: handleLogout_def)


subsection \<open>Two plaintexts with one ciphertext\<close>

text \<open>
  CBC xors the IV into the first block of the padded plaintext before the block
  permutation runs. The plaintext 1, 2, 3 under the IV 0, 0, \<dots> and the plaintext 0, 2, 3
  under the IV 1, 0, \<dots> give the same first block there, so their ciphertexts are the same
  under every key and every library.
\<close>

lemma crafted_first_block:
  "xorBlock (blockAt (bytesToWords (Pkcs7_padded [1, 2, 3])) 0)
       (blockAt (bytesToWords (nextIV zero_world)) 0)
     = xorBlock (blockAt (bytesToWords (Pkcs7_padded [0, 2, 3])) 0)
         (blockAt (bytesToWords (nextIV one_world)) 0)"
  by code_simp

lemma crafted_cipherBlocks:
  "cipherBlocks L key (nextIV zero_world) [1, 2, 3]
     = cipherBlocks L key (nextIV one_world) [0, 2, 3]"
  using crafted_first_block by (simp add: cipherBlocks_def blocksOf_def Let_def)

lemma crafted_plaintexts_same_ciphertext:
  "fst (encryptData L [1, 2, 3] key zero_world)
     = Inr (nextIV zero_world @ blockBytes (cipherBlocks L key (nextIV zero_world) [1, 2, 3]))
   \<and> fst (encryptData L [0, 2, 3] key one_world)
     = Inr (nextIV one_world @ blockBytes (cipherBlocks L key (nextIV zero_world) [1, 2, 3]))"
  by (simp add: encryptData_nextIV crafted_cipherBlocks)
section \<open>The claims\<close>

text \<open>
  C1 (round trip). For every plaintext \<open>P\<close>, every password \<open>W\<close> and every salt
  \<open>s\<close> (of 16 bytes or of any other length): under a key whose block permutation
  decrypts what it encrypts, as AES does, \<open>encryptData\<close> returns a payload, whatever the
  random IV it draws, and \<open>decryptData\<close> of that payload under the same derived key
  returns exactly \<open>P\<close>.
\<close>

theorem encrypt_decrypt_roundtrip:
  assumes "cipher_inverts L (deriveKey L W s)"
  shows "\<exists>payload w'. encryptData L P (deriveKey L W s) w = (Inr payload, w')
           \<and> decryptData L payload (deriveKey L W s) = Inr P"
  using decryptData_payload [OF length_getRandomBytes assms]
  by (simp add: encryptData_eq)

theorem encrypt_decrypt_roundtrip_witness:
  "cipher_inverts rot_lib (deriveKey rot_lib ''hunter2'' (replicate 16 7))
   \<and> decryptData rot_lib
        [0, 0, 0, 0, 0, 0, 0, 0, 0, 0, 0, 0, 13, 13, 13, 13, 13, 13, 13, 13,
         13, 13, 13, 13, 1, 2, 3, 13]
        (deriveKey rot_lib ''hunter2'' (replicate 16 7)) = Inr [1, 2, 3]"
proof -
  have key: "deriveKey rot_lib ''hunter2'' (replicate 16 7) = rot_key"
    by (rule deriveKey_rot_lib)
  have inv: "cipher_inverts rot_lib (deriveKey rot_lib ''hunter2'' (replicate 16 7))"
    by (rule cipher_inverts_rot_lib)
  have enc: "fst (encryptData rot_lib [1, 2, 3] rot_key zero_world) =
      Inr [0, 0, 0, 0, 0, 0, 0, 0, 0, 0, 0, 0, 13, 13, 13, 13, 13, 13, 13, 13,
           13, 13, 13, 13, 1, 2, 3, 13]"
    by code_simp
  from encrypt_decrypt_roundtrip [OF inv, of "[1, 2, 3]" zero_world] enc inv
  show ?thesis unfolding key by auto
qed

text \<open>
  C2 (key and salt together). The claim is that the master key and the salt are both
  present or both absent in every reachable state, and that a failed unlock leaves
  neither. \<open>handleUnlock\<close> stores the salt before it derives the key, and its
  \<open>catch\<close> block resets the local database only: after opening a stored file and
  submitting a password that does not unlock it, the session is in a reachable state
  that holds the salt of the file and no key.
\<close>

theorem failed_unlock_keeps_salt:
  "reachable L w0 (failedUnlock L w0 password)
   \<and> state (fst (failedUnlock L w0 password)) = UNLOCK
   \<and> error (fst (failedUnlock L w0 password)) = ''Incorrect password or corrupted file.''
   \<and> salt (fst (failedUnlock L w0 password)) = Some [1, 2, 3, 4, 5, 6, 7, 8, 9, 10, 11, 12, 13, 14, 15, 16]
   \<and> masterKey (fst (failedUnlock L w0 password)) = None"
proof -
  obtain e where "failedUnlock L w0 password =
     (initialApp\<lparr>loading := False, error := ''Incorrect password or corrupted file.'',
                 encryptedData := Some ivOnlyContainer, state := UNLOCK,
                 salt := Some (take 16 ivOnlyContainer)\<rparr>,
      w0\<lparr>console := console w0 @ [String_of e]\<rparr>)"
    using failedUnlock_eq by blast
  then show ?thesis
    using failedUnlock_reachable [of L w0 password]
    by (simp add: initialApp_def ivOnlyContainer_def)
qed

text \<open>
  C3 (padding failures). The claim is that \<open>decryptData\<close> fails with a decryption
  error on every payload whose ciphertext does not un-pad correctly. It does not: nothing
  in \<open>decryptData\<close> or in the un-padding it calls compares the padding bytes. A payload of
  an IV alone, and the payload of 28 zero bytes under the rotating permutation, decrypt
  to bytes without a valid padding, and \<open>decryptData\<close> returns bytes for both. Under
  every library whose block permutation inverts, the CBC encryption of any blocks that
  end in a byte of 0 decrypts to these blocks (lemma \<open>decryptData_unpadded\<close>), and a
  payload with 256 bytes of ciphertext or more never fails (lemma
  \<open>decryptData_long_never_fails\<close>).
\<close>

theorem decryptData_invalid_padding_counterexample:
  "\<not> Pkcs7_valid (sigBytesOf (decryptedBlocks rot_lib (replicate 12 0) rot_key))
   \<and> decryptData rot_lib (replicate 12 0) rot_key = Inr []
   \<and> \<not> Pkcs7_valid (sigBytesOf (decryptedBlocks rot_lib (replicate 28 0) rot_key))
   \<and> decryptData rot_lib (replicate 28 0) rot_key = Inr (replicate 16 0)"
proof -
  have "length (sigBytesOf (decryptedBlocks rot_lib (replicate 12 0) rot_key)) = 0"
    by (simp add: length_sigBytesOf_decryptedBlocks)
  then have a: "\<not> Pkcs7_valid (sigBytesOf (decryptedBlocks rot_lib (replicate 12 0) rot_key))"
    by (simp add: Pkcs7_valid_def)
  have b: "decryptData rot_lib (replicate 12 0) rot_key = Inr []"
    by (rule decryptData_short) simp
  have c: "sigBytesOf (decryptedBlocks rot_lib (replicate 28 0) rot_key) = replicate 16 0"
    by code_simp
  have d: "\<not> Pkcs7_valid (replicate 16 0)"
    by code_simp
  have e: "decryptData rot_lib (replicate 28 0) rot_key = Inr (replicate 16 0)"
    by code_simp
  from a b c d e show ?thesis by simp
qed

text \<open>
  C3, as amended. With \<open>n\<close> the length of the ciphertext (the payload without its first
  12 bytes) and \<open>p\<close> the low byte of the last decrypted word, \<open>decryptData\<close> returns the
  first \<open>n - p\<close> decrypted bytes when \<open>p \<le> n\<close>, whatever the padding bytes are, and fails
  only when \<open>p > n\<close>, with the RangeError of an array of negative length.
\<close>

theorem decryptData_ignores_padding:
  "decryptData L data key =
     (let raw = decryptedBlocks L data key;
          n = length data - 12;
          p = unat (wget (words raw) (ushr2 (int n - 1)) AND 0xff)
      in if n < p then Inl (RangeError ''Invalid typed array length'')
         else Inr (take (n - p) (sigBytesOf raw)))"
  by (rule decryptData_cases)

text \<open>
  C4 (header check). For the decrypted bytes \<open>D\<close> of an unlock attempt, the check
  passes exactly when the first 15 bytes of \<open>D\<close> are the bytes of
  \<open>SQLite format 3\<close>; bytes shorter than 15 fail it. The session reaches \<open>READY\<close>
  exactly when the check passes and the database import does not throw; on a mismatch
  it stays in \<open>UNLOCK\<close> with the error shown and stores no key.
\<close>

theorem header_check:
  assumes "state app = UNLOCK" and "encryptedData app = Some E"
    and "decryptData L (drop 16 E) (deriveKey L password (take 16 E)) = Inr D"
  shows "(isValid D \<longleftrightarrow>
            take 15 D = [0x53, 0x51, 0x4c, 0x69, 0x74, 0x65, 0x20, 0x66, 0x6f, 0x72, 0x6d, 0x61,
                         0x74, 0x20, 0x33])
       \<and> (state (fst (handleUnlock L password imported (app, w))) = READY
            \<longleftrightarrow> isValid D \<and> imported = None)
       \<and> (\<not> isValid D \<longrightarrow>
            state (fst (handleUnlock L password imported (app, w))) = UNLOCK
          \<and> error (fst (handleUnlock L password imported (app, w)))
              = ''Incorrect password or corrupted file.''
          \<and> masterKey (fst (handleUnlock L password imported (app, w))) = masterKey app)"
proof (cases "isValid D \<and> imported = None")
  case True
  then show ?thesis
    using handleUnlock_ok [OF assms(2,3), of imported w] isValid_iff [of D]
    by (simp add: headerBytes_def)
next
  case False
  then have "\<not> (\<exists>D'. decryptData L (drop 16 E) (deriveKey L password (take 16 E)) = Inr D'
              \<and> isValid D' \<and> imported = None)"
    using assms(3) by auto
  from handleUnlock_fail [OF assms(2) this, of w] obtain e where
    "handleUnlock L password imported (app, w) =
       (app\<lparr>loading := False, error := ''Incorrect password or corrupted file.'',
            salt := Some (take 16 E)\<rparr>, w\<lparr>console := console w @ [String_of e]\<rparr>)"
    by blast
  with False assms(1) show ?thesis
    using isValid_iff [of D] by (auto simp add: headerBytes_def)
qed

theorem header_check_witness:
  "state (fst demoOpened) = UNLOCK \<and> encryptedData (fst demoOpened) = Some demoContainer
   \<and> decryptData rot_lib (drop 16 demoContainer)
        (deriveKey rot_lib ''hunter2'' (take 16 demoContainer)) = Inr (headerBytes @ [0])
   \<and> isValid (headerBytes @ [0])
   \<and> state (fst (handleUnlock rot_lib ''hunter2'' None (fst demoOpened, zero_world))) = READY
   \<and> state (fst (handleUnlock rot_lib ''hunter2'' (Some (Error ''cannot open'')) (fst demoOpened, zero_world)))
        \<noteq> READY"
proof -
  have s: "state (fst demoOpened) = UNLOCK" and e: "encryptedData (fst demoOpened) = Some demoContainer"
    by (simp_all add: demoOpened_eq)
  from header_check [OF s e demoContainer_decrypts, of None zero_world]
    header_check [OF s e demoContainer_decrypts, of "Some (Error ''cannot open'')" zero_world]
    s e demoContainer_decrypts isValid_demo
  show ?thesis by simp
qed

text \<open>
  C5 (opening a file). The claim is that a zero-byte read leads to the creation of a
  password, a non-empty read to \<open>UNLOCK\<close> with the bytes stored, and a read that returns
  \<open>null\<close> or fails to an error while the session stays in \<open>WELCOME\<close>.
  \<open>handleOpen\<close> with \<open>provider.pickFile()\<close> (lines 280 to 317) does so (lemma
  \<open>handleOpen_pickFile_read\<close>). \<open>handleOpen\<close> with the document picker (lines 26 to
  76) tests \<open>data && data.length > 0\<close> and sends everything else, a \<open>null\<close> read too,
  to the creation of a password. The provider \<open>Android SAF\<close> returns \<open>null\<close> when the
  selected file cannot be read; for a picked file \<open>notes.db\<close> whose read returns
  \<open>null\<close> the session goes to \<open>CREATE_PASSWORD\<close> and \<open>handleOpen\<close> sets no error.
\<close>

theorem handleOpen_DocumentPicker_null_read:
  "fst (SafProvider_read_AndroidSAF (Some ''content://notes.db'') (Inl e) w) = Inr None
   \<and> state (fst (handleOpen_DocumentPicker (Inr (Some (''content://notes.db'', ''notes.db'')))
                    (Inr None) (initialApp, w)))
       = CREATE_PASSWORD
   \<and> error (fst (handleOpen_DocumentPicker (Inr (Some (''content://notes.db'', ''notes.db'')))
                    (Inr None) (initialApp, w)))
       = ''''
   \<and> snd (handleOpen_DocumentPicker (Inr (Some (''content://notes.db'', ''notes.db'')))
             (Inr None) (initialApp, w)) = w"
  by (simp add: SafProvider_read_AndroidSAF_def handleOpen_DocumentPicker_def Let_def
        endsWith_notes_db)

text \<open>
  C6 (silent synchronisation). In the \<open>READY\<close> state, with the key and the salt of the
  session, when the write of a synchronisation fails: the silent synchronisation leaves
  the state of the application as it was (state, key, salt and all the rest), shows no
  dialog and logs the exception on the console; the explicit synchronisation keeps the
  state \<open>READY\<close>, the key and the salt too and shows the dialog \<open>Sync failed\<close>.
\<close>

theorem silent_sync_failure_logged_only:
  assumes "state app = READY" and "masterKey app = Some k" and "k \<noteq> ''''" and "salt app = Some s"
    and "exported io = Inr db" and "writeFailure io = Some e"
  shows "fst (handleSync L True io (app, w)) = app
       \<and> alerts (snd (handleSync L True io (app, w))) = alerts w
       \<and> console (snd (handleSync L True io (app, w))) = console w @ [String_of e]
       \<and> state (fst (handleSync L False io (app, w))) = READY
       \<and> masterKey (fst (handleSync L False io (app, w))) = Some k
       \<and> salt (fst (handleSync L False io (app, w))) = Some s
       \<and> alerts (snd (handleSync L False io (app, w))) = alerts w @ [''Sync failed: '' @ String_of e]"
  using performSync_write_failed [OF assms(5,6), of L k s w] assms(1,2,4)
  by (simp add: handleSync_synced [OF assms(2,3,4)] performSync_world)

theorem silent_sync_failure_logged_only_witness:
  "state (fst demoUnlocked) = READY \<and> masterKey (fst demoUnlocked) = Some rot_key
   \<and> rot_key \<noteq> '''' \<and> salt (fst demoUnlocked) = Some (take 16 demoContainer)
   \<and> exported failingWrite = Inr (headerBytes @ [0])
   \<and> writeFailure failingWrite = Some (Error ''No file selected'')
   \<and> fst (handleSync rot_lib True failingWrite demoUnlocked) = fst demoUnlocked
   \<and> alerts (snd (handleSync rot_lib True failingWrite demoUnlocked)) = []
   \<and> console (snd (handleSync rot_lib True failingWrite demoUnlocked)) = [''Error: No file selected'']
   \<and> alerts (snd (handleSync rot_lib False failingWrite demoUnlocked))
        = [''Sync failed: Error: No file selected'']"
proof -
  have a: "state (fst demoUnlocked) = READY" "masterKey (fst demoUnlocked) = Some rot_key"
    "salt (fst demoUnlocked) = Some (take 16 demoContainer)"
    by (simp_all add: demoUnlocked_eq deriveKey_rot_lib)
  have b: "rot_key \<noteq> ''''" by (simp add: rot_key_def)
  have c: "exported failingWrite = Inr (headerBytes @ [0])"
    "writeFailure failingWrite = Some (Error ''No file selected'')"
    by (simp_all add: failingWrite_def)
  have d: "(fst demoUnlocked, zero_world) = demoUnlocked"
    by (simp add: demoUnlocked_eq)
  have z: "alerts zero_world = []" "console zero_world = []"
    by (simp_all add: zero_world_def)
  note t = silent_sync_failure_logged_only [OF a(1,2) b a(3) c, of rot_lib zero_world]
  from t [unfolded d z] a b c
  show ?thesis by simp
qed

text \<open>
  C7 (the salt is kept). When \<open>handleUnlock\<close> takes the session from \<open>UNLOCK\<close> to
  \<open>READY\<close> on the stored bytes \<open>E\<close>, the salt of the session is the first 16 bytes of
  \<open>E\<close>, no random byte has been drawn, and after any run of synchronisations, silent or
  explicit, failing or not, the salt is the same and every container handed to
  \<open>provider.write\<close> starts with these 16 bytes. A fresh random salt is what
  \<open>handleCreatePassword\<close> stores: the next 16 bytes of the random generator.
\<close>

theorem salt_never_regenerated:
  assumes "state app = UNLOCK" and "encryptedData app = Some E"
    and "handleUnlock L password imported (app, w) = (app1, w1)" and "state app1 = READY"
    and "syncs L evs (app1, w1) = (app2, w2)"
  shows "length (take 16 E) = 16 \<and> salt app1 = Some (take 16 E) \<and> drawn w1 = drawn w
       \<and> state app2 = READY \<and> salt app2 = Some (take 16 E)
       \<and> (\<exists>cs. written w2 = written w @ cs \<and> (\<forall>c\<in>set cs. take 16 c = take 16 E))
       \<and> salt (fst (handleCreatePassword L password' initialised io (app', w')))
            = Some (map (entropy w') [drawn w'..<drawn w' + 16])"
proof -
  have ok: "\<exists>D. decryptData L (drop 16 E) (deriveKey L password (take 16 E)) = Inr D
              \<and> isValid D \<and> imported = None"
  proof (rule ccontr)
    assume "\<not> ?thesis"
    from handleUnlock_fail [OF assms(2) this, of w] assms(1,3,4) show False by auto
  qed
  then obtain D where D: "decryptData L (drop 16 E) (deriveKey L password (take 16 E)) = Inr D"
    "isValid D" "imported = None" by blast
  have len: "length (take 16 E) = 16"
    using D(1,2) by (rule unlocked_salt_length)
  from handleUnlock_ok [OF assms(2) D, of w] assms(3)
  have u: "salt app1 = Some (take 16 E)" "w1 = w" by auto
  from syncs_written [OF u(1), of L evs w1] assms(4,5) len u(2)
  have "state app2 = READY \<and> salt app2 = Some (take 16 E)
       \<and> (\<exists>cs. written w2 = written w @ cs \<and> (\<forall>c\<in>set cs. take 16 c = take 16 E))"
    by simp
  moreover have "salt (fst (handleCreatePassword L password' initialised io (app', w')))
            = Some (map (entropy w') [drawn w'..<drawn w' + 16])"
    by (simp add: handleCreatePassword_salt generateSalt_def getRandomBytes_def)
  ultimately show ?thesis using len u by simp
qed

theorem salt_never_regenerated_witness:
  "state (fst demoOpened) = UNLOCK \<and> encryptedData (fst demoOpened) = Some demoContainer
   \<and> handleUnlock rot_lib ''hunter2'' None (fst demoOpened, zero_world)
        = (fst demoUnlocked, zero_world)
   \<and> state (fst demoUnlocked) = READY
   \<and> salt (fst (syncs rot_lib [(True, savingSync), (False, failingWrite)] demoUnlocked))
        = Some (take 16 demoContainer)
   \<and> (\<exists>cs. written (snd (syncs rot_lib [(True, savingSync), (False, failingWrite)] demoUnlocked))
              = written zero_world @ cs
           \<and> (\<forall>c\<in>set cs. take 16 c = take 16 demoContainer))"
proof -
  have a: "state (fst demoOpened) = UNLOCK" "encryptedData (fst demoOpened) = Some demoContainer"
    by (simp_all add: demoOpened_eq)
  have b: "handleUnlock rot_lib ''hunter2'' None (fst demoOpened, zero_world)
             = (fst demoUnlocked, zero_world)"
    by (simp add: demoUnlocked_def demoOpened_eq) (simp add: demoOpened_eq [symmetric] demoUnlocked_def [symmetric] demoUnlocked_eq)
  have c: "state (fst demoUnlocked) = READY"
    by (simp add: demoUnlocked_eq)
  have d: "(fst demoUnlocked, zero_world) = demoUnlocked"
    by (simp add: demoUnlocked_eq)
  have e: "syncs rot_lib [(True, savingSync), (False, failingWrite)] (fst demoUnlocked, zero_world)
      = (fst (syncs rot_lib [(True, savingSync), (False, failingWrite)] demoUnlocked),
         snd (syncs rot_lib [(True, savingSync), (False, failingWrite)] demoUnlocked))"
    by (simp only: d prod.collapse)
  from salt_never_regenerated [OF a b c e] a b c
  show ?thesis by blast
qed

text \<open>
  C8 (fresh IV). The claim is that two encryptions under the same key whose random draws
  differ give outputs that differ in their IV prefix and in their ciphertext, whatever
  the two plaintexts are. The IV prefixes differ, the ciphertexts need not: under the key
  of the small library, the plaintext 1, 2, 3 with the draw 0, 0, \<dots> and the plaintext
  0, 2, 3 with the draw 1, 0, \<dots> give outputs with different first 12 bytes and the same
  16 bytes of ciphertext after them. CBC xors the IV into the first plaintext block, and
  the two xors are equal; the same holds under every key and every library (lemma
  \<open>crafted_plaintexts_same_ciphertext\<close>).
\<close>

theorem fresh_iv_ciphertext_counterexample:
  "nextIV zero_world \<noteq> nextIV one_world
   \<and> fst (encryptData rot_lib [1, 2, 3] rot_key zero_world)
       = Inr (nextIV zero_world @ [13, 13, 13, 13, 13, 13, 13, 13, 13, 13, 13, 13, 1, 2, 3, 13])
   \<and> fst (encryptData rot_lib [0, 2, 3] rot_key one_world)
       = Inr (nextIV one_world @ [13, 13, 13, 13, 13, 13, 13, 13, 13, 13, 13, 13, 1, 2, 3, 13])"
  by code_simp

text \<open>
  C8, as amended. Every call of \<open>encryptData\<close> draws the next 12 bytes of the random
  generator and returns them as the first 12 bytes of its output; a second call draws the
  12 bytes after them. For two encryptions under the same key, when the two draws differ
  the outputs differ in their first 12 bytes, for any two plaintexts; and when the two
  plaintexts are the same, the ciphertexts after the IV differ too, under a key whose
  block permutation decrypts what it encrypts.
\<close>

theorem fresh_iv_per_encryption:
  assumes "cipher_inverts L key"
  shows "\<exists>ct1 ct2.
      fst (encryptData L P1 key w1) = Inr (nextIV w1 @ ct1) \<and>
      fst (encryptData L P2 key w2) = Inr (nextIV w2 @ ct2) \<and>
      length (nextIV w1) = 12 \<and> length (nextIV w2) = 12 \<and>
      nextIV w1 = map (entropy w1) [drawn w1..<drawn w1 + 12] \<and>
      nextIV (snd (encryptData L P1 key w1)) = map (entropy w1) [drawn w1 + 12..<drawn w1 + 24] \<and>
      (nextIV w1 \<noteq> nextIV w2 \<longrightarrow>
         fst (encryptData L P1 key w1) \<noteq> fst (encryptData L P2 key w2) \<and>
         (P1 = P2 \<longrightarrow> ct1 \<noteq> ct2))"
proof -
  let ?ct1 = "blockBytes (cipherBlocks L key (nextIV w1) P1)"
  let ?ct2 = "blockBytes (cipherBlocks L key (nextIV w2) P2)"
  have next': "nextIV (snd (encryptData L P1 key w1)) = map (entropy w1) [drawn w1 + 12..<drawn w1 + 24]"
    by (simp add: encryptData_nextIV nextIV_eq add.commute)
  have differ: "fst (encryptData L P1 key w1) \<noteq> fst (encryptData L P2 key w2)"
    if "nextIV w1 \<noteq> nextIV w2"
    using that by (simp add: encryptData_nextIV length_nextIV)
  have ct: "?ct1 \<noteq> ?ct2" if "nextIV w1 \<noteq> nextIV w2" "P1 = P2"
    using that cipherBlocks_iv_inj [OF assms length_nextIV length_nextIV, of w1 P1 w2] by auto
  show ?thesis
    by (intro exI [of _ ?ct1] exI [of _ ?ct2])
       (use next' differ ct in \<open>simp add: encryptData_nextIV length_nextIV nextIV_eq [symmetric]\<close>)
qed

theorem fresh_iv_per_encryption_witness:
  "cipher_inverts rot_lib rot_key \<and> nextIV zero_world \<noteq> nextIV one_world \<and>
   fst (encryptData rot_lib [1, 2, 3] rot_key zero_world)
     \<noteq> fst (encryptData rot_lib [1, 2, 3] rot_key one_world)"
proof -
  have ne: "nextIV zero_world \<noteq> nextIV one_world"
    by code_simp
  from fresh_iv_per_encryption [of rot_lib rot_key "[1, 2, 3]" zero_world "[1, 2, 3]" one_world,
      OF cipher_inverts_rot_lib] ne cipher_inverts_rot_lib [of rot_key]
  show ?thesis by blast
qed

text \<open>
  C9 (key derivation). \<open>deriveKey\<close> is the Base64 text of the PBKDF2 of the password
  and of the salt's word array, with SHA-256, 100000 iterations (at least 100000) and a
  key of \<open>256/32\<close> words, that is 256 bits. It takes no argument but the password and
  the salt and touches no state: equal passwords and salts give equal keys, and the key
  derived from the first 16 bytes of a stored container is the key derived from the salt
  the container was written with.
\<close>

theorem deriveKey_deterministic:
  "deriveKey L password s
     = Base64_stringify L (PBKDF2 L password (WordArray_create s) deriveKey_cfg)
   \<and> hasher deriveKey_cfg = SHA256
   \<and> iterations deriveKey_cfg = 100000 \<and> 100000 \<le> iterations deriveKey_cfg
   \<and> 32 * keySize deriveKey_cfg = 256
   \<and> (\<forall>password' s'. password' = password \<and> s' = s
        \<longrightarrow> deriveKey L password' s' = deriveKey L password s)
   \<and> (\<forall>payload. length s = 16
        \<longrightarrow> deriveKey L password (take 16 (s @ payload)) = deriveKey L password s)"
  by (simp add: deriveKey_def deriveKey_cfg_def Let_def)

theorem deriveKey_deterministic_witness:
  "length [7, 7, 7, 7, 7, 7, 7, 7, 7, 7, 7, 7, 7, 7, 7, 7 :: byte] = 16
   \<and> deriveKey rot_lib ''hunter2'' (take 16 demoContainer)
       = deriveKey rot_lib ''hunter2'' [7, 7, 7, 7, 7, 7, 7, 7, 7, 7, 7, 7, 7, 7, 7, 7]
   \<and> iterations deriveKey_cfg = 100000"
proof -
  have "take 16 demoContainer
          = take 16 ([7, 7, 7, 7, 7, 7, 7, 7, 7, 7, 7, 7, 7, 7, 7, 7] @ drop 16 demoContainer)"
    by (simp add: demoContainer_def)
  with deriveKey_deterministic [of rot_lib "''hunter2''" "[7, 7, 7, 7, 7, 7, 7, 7, 7, 7, 7, 7, 7, 7, 7, 7]"]
  show ?thesis by simp
qed

text \<open>
  C10 (lengths). For every plaintext \<open>P\<close>, \<open>encryptData\<close> returns 12 bytes of IV
  followed by \<open>16 * (length P div 16 + 1)\<close> bytes of ciphertext and nothing else. In
  every reachable \<open>READY\<close> state, a synchronisation whose database image \<open>db\<close> is
  exported hands to \<open>provider.write\<close> one container (none if the stored key were the
  empty string), of \<open>28 + 16 * (length db div 16 + 1)\<close> bytes; so does the first
  synchronisation of \<open>handleCreatePassword\<close>.
\<close>

theorem container_length:
  assumes "reachable L w0 st" and "state (fst st) = READY" and "exported io = Inr db"
  shows "(\<exists>iv ct w'. encryptData L P key w = (Inr (iv @ ct), w') \<and> length iv = 12
            \<and> length ct = 16 * (length P div 16 + 1)
            \<and> length (iv @ ct) = 12 + 16 * (length P div 16 + 1))
       \<and> (\<exists>cs. written (snd (handleSync L silent io st)) = written (snd st) @ cs
            \<and> (\<forall>c\<in>set cs. length c = 28 + 16 * (length db div 16 + 1)))
       \<and> (\<forall>k. masterKey (fst st) = Some k \<and> k \<noteq> ''''
            \<longrightarrow> (\<exists>c. written (snd (handleSync L silent io st)) = written (snd st) @ [c]))
       \<and> (\<exists>cs. written (snd (handleCreatePassword L password initialised io (app', w')))
                  = written w' @ cs
            \<and> (\<forall>c\<in>set cs. length c = 28 + 16 * (length db div 16 + 1)))"
proof -
  obtain app ws where st: "st = (app, ws)" by (cases st)
  from reachable_session_ok [OF assms(1)] assms(2)
  obtain k s where ks: "masterKey app = Some k" "salt app = Some s" "length s = 16"
    by (auto simp add: session_ok_def st)
  have enc: "\<exists>iv ct w'. encryptData L P key w = (Inr (iv @ ct), w') \<and> length iv = 12
            \<and> length ct = 16 * (length P div 16 + 1)
            \<and> length (iv @ ct) = 12 + 16 * (length P div 16 + 1)"
  proof -
    from encryptData_length [of L P key w] obtain iv ct w' where
      "encryptData L P key w = (Inr (iv @ ct), w')" "length iv = 12"
      "length ct = 16 * (length P div 16 + 1)" by blast
    moreover from this have "length (iv @ ct) = 12 + 16 * (length P div 16 + 1)" by simp
    ultimately show ?thesis by blast
  qed
  from handleSync_written [OF ks(2), of L silent io ws] obtain cs where
    cs: "written (snd (handleSync L silent io (app, ws))) = written ws @ cs"
      "\<forall>c\<in>set cs. \<exists>db. exported io = Inr db \<and> take (length s) c = s \<and>
            length c = length s + 12 + 16 * (length db div 16 + 1)"
    by blast
  have sync: "\<exists>cs. written (snd (handleSync L silent io st)) = written (snd st) @ cs
            \<and> (\<forall>c\<in>set cs. length c = 28 + 16 * (length db div 16 + 1))"
    using cs ks(3) assms(3) by (intro exI [of _ cs]) (auto simp add: st)
  have one: "\<exists>c. written (snd (handleSync L silent io st)) = written (snd st) @ [c]"
    if "masterKey (fst st) = Some k'" "k' \<noteq> ''''" for k'
  proof -
    from that have k': "masterKey app = Some k'" by (simp add: st)
    show ?thesis
      unfolding st handleSync_synced [OF k' that(2) ks(2)] performSync_exported [OF assms(3)]
      by (cases "writeFailure io") simp_all
  qed
  from handleCreatePassword_written [of L password initialised io app' w'] obtain cs' where
    cs': "written (snd (handleCreatePassword L password initialised io (app', w'))) = written w' @ cs'"
      "\<forall>c\<in>set cs'. \<exists>db. exported io = Inr db \<and> length c = 28 + 16 * (length db div 16 + 1)"
    by blast
  have create: "\<exists>cs. written (snd (handleCreatePassword L password initialised io (app', w')))
                  = written w' @ cs
            \<and> (\<forall>c\<in>set cs. length c = 28 + 16 * (length db div 16 + 1))"
    using cs' assms(3) by (intro exI [of _ cs']) auto
  from enc sync one create show ?thesis by blast
qed

theorem container_length_witness:
  "reachable rot_lib zero_world demoUnlocked \<and> state (fst demoUnlocked) = READY
   \<and> exported savingSync = Inr (headerBytes @ [0])
   \<and> (\<exists>c. written (snd (handleSync rot_lib True savingSync demoUnlocked)) = [c]
          \<and> length c = 60)"
proof -
  have a: "state (fst demoUnlocked) = READY" "masterKey (fst demoUnlocked) = Some rot_key"
    by (simp_all add: demoUnlocked_eq deriveKey_rot_lib)
  have b: "exported savingSync = Inr (headerBytes @ [0])"
    by (simp add: savingSync_def)
  have c: "rot_key \<noteq> ''''" by (simp add: rot_key_def)
  have d: "written (snd demoUnlocked) = []"
    by (simp add: demoUnlocked_eq zero_world_def)
  have e: "28 + 16 * (length (headerBytes @ [0 :: byte]) div 16 + 1) = 60"
    by (simp add: length_headerBytes)
  from container_length [OF demoUnlocked_reachable a(1) b, of "[]" rot_key zero_world True
      "''hunter2''" None initialApp zero_world] a c
  obtain cs x where
    "written (snd (handleSync rot_lib True savingSync demoUnlocked)) = written (snd demoUnlocked) @ cs"
    "\<forall>c\<in>set cs. length c = 28 + 16 * (length (headerBytes @ [0 :: byte]) div 16 + 1)"
    "written (snd (handleSync rot_lib True savingSync demoUnlocked)) = written (snd demoUnlocked) @ [x]"
    by blast
  then have "written (snd (handleSync rot_lib True savingSync demoUnlocked)) = [x] \<and> length x = 60"
    unfolding d e by auto
  with demoUnlocked_reachable a(1) b show ?thesis by blast
qed

end
